theory Spec2Isabelle
  imports Main "HOL-Library.Word"
begin

section \<open>Library functions the programs call\<close>

text \<open>
  The repository holds five small command-line programs that page through the GitHub
  repository search.  They share a handful of standard-library calls, modelled here:
  \<^verbatim>\<open>strings.Contains\<close>, \<^verbatim>\<open>strconv.FormatInt\<close> (also \<^verbatim>\<open>%d\<close>),
  \<^verbatim>\<open>base64.StdEncoding.EncodeToString\<close> and \<^verbatim>\<open>strings.Cut\<close>.
\<close>

fun has_prefix :: "string \<Rightarrow> string \<Rightarrow> bool" where
  "has_prefix [] s = True"
| "has_prefix (p # ps) [] = False"
| "has_prefix (p # ps) (c # cs) = (p = c \<and> has_prefix ps cs)"

text \<open>\<^verbatim>\<open>strings.Contains(s, substr)\<close>: \<open>substr\<close> occurs somewhere in \<open>s\<close>.\<close>

fun Contains :: "string \<Rightarrow> string \<Rightarrow> bool" where
  "Contains [] substr = (substr = [])"
| "Contains (c # cs) substr = (has_prefix substr (c # cs) \<or> Contains cs substr)"

definition digit_char :: "nat \<Rightarrow> char" where
  "digit_char d = char_of (48 + d)"

fun digits :: "nat \<Rightarrow> string" where
  "digits n = (if n < 10 then [digit_char n] else digits (n div 10) @ [digit_char (n mod 10)])"

declare digits.simps [simp del]

text \<open>\<^verbatim>\<open>strconv.FormatInt(i, 10)\<close> and \<^verbatim>\<open>fmt.Sprintf("%d", i)\<close>.\<close>

definition FormatInt :: "int \<Rightarrow> string" where
  "FormatInt i = (if i < 0 then CHR ''-'' # digits (nat (- i)) else digits (nat i))"

definition b64_alphabet :: string where
  "b64_alphabet = ''ABCDEFGHIJKLMNOPQRSTUVWXYZabcdefghijklmnopqrstuvwxyz0123456789+/''"

definition b64_char :: "nat \<Rightarrow> char" where
  "b64_char n = b64_alphabet ! (n mod 64)"

text \<open>Standard base64 with padding, over the bytes of the string.\<close>

fun b64_bytes :: "nat list \<Rightarrow> string" where
  "b64_bytes [] = []"
| "b64_bytes [a] = [b64_char (a div 4), b64_char ((a mod 4) * 16), CHR ''='', CHR ''='']"
| "b64_bytes [a, b] =
     [b64_char (a div 4), b64_char ((a mod 4) * 16 + b div 16),
      b64_char ((b mod 16) * 4), CHR ''='']"
| "b64_bytes (a # b # c # rest) =
     [b64_char (a div 4), b64_char ((a mod 4) * 16 + b div 16),
      b64_char ((b mod 16) * 4 + c div 64), b64_char (c mod 64)] @ b64_bytes rest"

definition EncodeToString :: "string \<Rightarrow> string" where
  "EncodeToString s = b64_bytes (map of_char s)"

text \<open>\<^verbatim>\<open>strings.Cut(s, "/")\<close>: the text before the first slash and the text after it; the
  whole string and the empty string when there is no slash.\<close>

definition Cut_slash :: "string \<Rightarrow> string \<times> string" where
  "Cut_slash s = (takeWhile (\<lambda>c. c \<noteq> CHR ''/'') s, drop 1 (dropWhile (\<lambda>c. c \<noteq> CHR ''/'') s))"

text \<open>\<^verbatim>\<open>fmt.Sprintf("%02d", i)\<close>: at least two characters, zero-padded, the sign counted
  in the width.\<close>

definition zero_pad :: "nat \<Rightarrow> nat \<Rightarrow> string" where
  "zero_pad width n = replicate (width - length (digits n)) CHR ''0'' @ digits n"

definition Sprintf_02d :: "int \<Rightarrow> string" where
  "Sprintf_02d i = (if i < 0 then CHR ''-'' # zero_pad 1 (nat (- i)) else zero_pad 2 (nat i))"

section \<open>Time\<close>

text \<open>
  A \<^verbatim>\<open>time.Time\<close> in UTC: whole seconds since January 1 of year 1, 00:00:00 UTC
  (the zero value of the Go type) and the nanoseconds within the second.  Every time the
  programs handle is UTC: the server's timestamps end in \<^verbatim>\<open>Z\<close> and the command-line dates
  are parsed with \<^verbatim>\<open>time.UTC\<close>.
\<close>

record Time =
  sec :: int
  nsec :: int

definition IsZero :: "Time \<Rightarrow> bool" where
  "IsZero t = (sec t = 0 \<and> nsec t = 0)"

definition After :: "Time \<Rightarrow> Time \<Rightarrow> bool" where
  "After t u = (sec t > sec u \<or> (sec t = sec u \<and> nsec t > nsec u))"

text \<open>\<^verbatim>\<open>t.AddDate(0, 0, 1)\<close>: the same time of day on the next calendar day; in UTC a day
  has 86400 seconds.\<close>

definition AddDate_day :: "Time \<Rightarrow> Time" where
  "AddDate_day t = t\<lparr>sec := sec t + 86400\<rparr>"

text \<open>
  Year, month and day of the proleptic Gregorian calendar from the number of days since
  January 1 of year 1, computed in eras of 400 years that start on March 1: the era and the
  day of the era, the year of the era, the day of that year, the month counted from March,
  and at last the day of the month, the month and the year.
\<close>

definition civil_date :: "int \<Rightarrow> int \<Rightarrow> int \<Rightarrow> int \<Rightarrow> int \<times> int \<times> int" where
  "civil_date era yoe d m = (yoe + era * 400 + (if m \<le> 2 then 1 else 0), m, d)"

definition civil_month :: "int \<Rightarrow> int \<Rightarrow> int \<Rightarrow> int \<Rightarrow> int \<times> int \<times> int" where
  "civil_month era yoe doy mp =
     civil_date era yoe (doy - (153 * mp + 2) div 5 + 1) (if mp < 10 then mp + 3 else mp - 9)"

definition civil_day_of_year :: "int \<Rightarrow> int \<Rightarrow> int \<Rightarrow> int \<times> int \<times> int" where
  "civil_day_of_year era yoe doy = civil_month era yoe doy ((5 * doy + 2) div 153)"

definition civil_year_of_era :: "int \<Rightarrow> int \<Rightarrow> int \<Rightarrow> int \<times> int \<times> int" where
  "civil_year_of_era era doe yoe =
     civil_day_of_year era yoe (doe - (365 * yoe + yoe div 4 - yoe div 100))"

definition civil_era :: "int \<Rightarrow> int \<Rightarrow> int \<times> int \<times> int" where
  "civil_era era doe =
     civil_year_of_era era doe ((doe - doe div 1460 + doe div 36524 - doe div 146096) div 365)"

definition civil :: "int \<Rightarrow> int \<times> int \<times> int" where
  "civil days = civil_era ((days + 306) div 146097) ((days + 306) mod 146097)"

text \<open>The zero-padded decimal of the standard formatter, of a given least width.\<close>

definition appendInt :: "int \<Rightarrow> nat \<Rightarrow> string" where
  "appendInt x width = (if x < 0 then CHR ''-'' # zero_pad width (nat (- x)) else zero_pad width (nat x))"

text \<open>\<^verbatim>\<open>t.Format("2006-01-02")\<close>.\<close>

definition Format_date :: "Time \<Rightarrow> string" where
  "Format_date t =
     (let (y, m, d) = civil (sec t div 86400)
      in appendInt y 4 @ ''-'' @ appendInt m 2 @ ''-'' @ appendInt d 2)"

text \<open>\<^verbatim>\<open>t.Format("15:04:05")\<close>.\<close>

definition Format_clock :: "Time \<Rightarrow> string" where
  "Format_clock t =
     (let s = sec t mod 86400
      in appendInt (s div 3600) 2 @ '':'' @ appendInt (s mod 3600 div 60) 2 @ '':'' @ appendInt (s mod 60) 2)"

text \<open>\<^verbatim>\<open>t.Format(time.RFC3339)\<close> of a UTC time, whose zone is printed as \<^verbatim>\<open>Z\<close>, and
  \<^verbatim>\<open>t.Format("2006-01-02T15:04:05Z")\<close>, where the \<^verbatim>\<open>Z\<close> is literal.\<close>

definition Format_RFC3339 :: "Time \<Rightarrow> string" where
  "Format_RFC3339 t = Format_date t @ ''T'' @ Format_clock t @ ''Z''"

definition Format_stamp :: "Time \<Rightarrow> string" where
  "Format_stamp t = Format_date t @ ''T'' @ Format_clock t @ ''Z''"

section \<open>Data model\<close>

text \<open>The \<^verbatim>\<open>Repository\<close> struct of the three programs that write ten columns
  (an \<^verbatim>\<open>int64\<close> field is a 64-bit word, read as signed).\<close>

record Repository =
  ArchivedAt :: Time
  CreatedAt :: Time
  DatabaseId :: "64 word"
  DiskUsage :: "64 word"
  ForkCount :: "64 word"
  NameWithOwner :: string
  PushedAt :: Time
  StargazerCount :: "64 word"
  UpdatedAt :: Time

text \<open>The \<^verbatim>\<open>Repository\<close> struct of the earlier watermark program (the second file of
  \<^verbatim>\<open>main.go\<close>): it has no identifier.  \<^verbatim>\<open>int\<close> is taken at 64 bits.\<close>

record RepositoryW =
  W_NameWithOwner :: string
  W_CreatedAt :: Time
  W_PushedAt :: Time
  W_StargazerCount :: "64 word"

text \<open>The \<^verbatim>\<open>Repository\<close> struct of the metric-windowing program.\<close>

record RepositoryM =
  M_NameWithOwner :: string
  M_StargazerCount :: "64 word"
  M_ForkCount :: "64 word"
  M_DiskUsage :: "64 word"

section \<open>The search endpoint and the outside world\<close>

text \<open>
  One call of \<^verbatim>\<open>client.Query\<close> either fails with an error, of which the programs read
  the message only, or decodes a page: the nodes and \<^verbatim>\<open>PageInfo.HasNextPage\<close>.
  The endpoint is a sequence of answers: \<open>srv n\<close> answers the \<open>n\<close>-th call made on the
  client.  The programs are sequential and deterministic, so this covers every behaviour
  of a server, a network and a cancelled context (a failure with that message).

  The world counts the calls made and records what the program did, in order: waiting for
  the rate limiter, calling the endpoint with a query and a cursor, sleeping.  Log lines
  are not recorded.
\<close>

datatype 'r response = Failure string | Page "'r list" bool

datatype 'a event = Take | Call string "string option" 'a | Sleep nat

record 'a world =
  calls :: nat
  events :: "'a event list"

definition rl_Take :: "'a world \<Rightarrow> 'a world" where
  "rl_Take w = w\<lparr>events := events w @ [Take]\<rparr>"

definition Query :: "(nat \<Rightarrow> 'a) \<Rightarrow> string \<Rightarrow> string option \<Rightarrow> 'a world \<Rightarrow> 'a \<times> 'a world" where
  "Query srv query cursor w =
     (srv (calls w),
      w\<lparr>calls := Suc (calls w), events := events w @ [Call query cursor (srv (calls w))]\<rparr>)"

definition Sleep_seconds :: "nat \<Rightarrow> 'a world \<Rightarrow> 'a world" where
  "Sleep_seconds n w = w\<lparr>events := events w @ [Sleep n]\<rparr>"

text \<open>What a finished run added to the record, and its calls: the queries, the cursors and
  the answers, in order.\<close>

definition added :: "'a world \<Rightarrow> 'a world \<Rightarrow> 'a event list" where
  "added w w' = drop (length (events w)) (events w')"

fun requests :: "'a event list \<Rightarrow> (string \<times> string option) list" where
  "requests [] = []"
| "requests (Call query cursor res # es) = (query, cursor) # requests es"
| "requests (e # es) = requests es"

fun answers :: "'a event list \<Rightarrow> 'a list" where
  "answers [] = []"
| "answers (Call query cursor res # es) = res # answers es"
| "answers (e # es) = answers es"


section \<open>The overlapping-offset search\<close>

text \<open>
  \<^verbatim>\<open>Search\<close> of the hourly program (the first file of \<^verbatim>\<open>main.go\<close>) and of the daily
  program differ in two places only: the hourly one waits for the rate limiter before each
  request, and the error messages they retry on are spelled without and with the final
  full stop.
\<close>

definition transient_hourly :: "string \<Rightarrow> bool" where
  "transient_hourly err =
     (Contains err ''You have exceeded a secondary rate limit''
      \<or> Contains err ''Something went wrong while executing your query''
      \<or> Contains err ''504 Gateway Timeout'')"

definition transient_daily :: "string \<Rightarrow> bool" where
  "transient_daily err =
     (Contains err ''You have exceeded a secondary rate limit.''
      \<or> Contains err ''Something went wrong while executing your query.''
      \<or> Contains err ''504 Gateway Timeout'')"

text \<open>The loop over the nodes of one page: a node whose \<^verbatim>\<open>DatabaseId\<close> is in \<open>uniq\<close> is
  skipped, any other is entered in \<open>uniq\<close> and appended to \<open>repos\<close>.\<close>

fun collect :: "Repository list \<Rightarrow> 64 word set \<Rightarrow> Repository list \<Rightarrow> 64 word set \<times> Repository list" where
  "collect [] uniq repos = (uniq, repos)"
| "collect (node # nodes) uniq repos =
     (if DatabaseId node \<in> uniq then collect nodes uniq repos
      else collect nodes (insert (DatabaseId node) uniq) (repos @ [node]))"

definition offset_cursor :: "int \<Rightarrow> string option" where
  "offset_cursor offset =
     (if offset > 0 then Some (EncodeToString (''cursor:'' @ FormatInt offset)) else None)"

text \<open>
  The \<^verbatim>\<open>for offset := 0; offset < 1000; offset += 91\<close> loop together with its
  \<^verbatim>\<open>goto Retry\<close>: one recursion, which either repeats the same offset after the sleep or
  moves on to the next one.  The retry has no bound, so the loop need not return:
  \<open>None\<close> is the run that never does.  \<open>limited\<close> says whether the rate limiter is used.
  An error return is \<open>Inl\<close> of the message (the Go function returns no repositories then).
\<close>

partial_function (option) Search_loop ::
  "bool \<Rightarrow> (string \<Rightarrow> bool) \<Rightarrow> (nat \<Rightarrow> Repository response) \<Rightarrow> string \<Rightarrow> int \<Rightarrow> 64 word set
    \<Rightarrow> Repository list \<Rightarrow> Repository response world
    \<Rightarrow> (Repository response world \<times> (string + Repository list)) option"
where
  "Search_loop limited transient srv query offset uniq repos w =
     (if \<not> offset < 1000 then Some (w, Inr repos)
      else
        let cursor = offset_cursor offset;
            w1 = (if limited then rl_Take w else w);
            (res, w2) = Query srv query cursor w1
        in case res of
             Failure err \<Rightarrow>
               if transient err
               then Search_loop limited transient srv query offset uniq repos (Sleep_seconds 10 w2)
               else Some (w2, Inl err)
           | Page nodes hasNextPage \<Rightarrow>
               let (uniq', repos') = collect nodes uniq repos
               in if \<not> hasNextPage then Some (w2, Inr repos')
                  else Search_loop limited transient srv query (offset + 91) uniq' repos' w2)"

definition Search_hourly ::
  "(nat \<Rightarrow> Repository response) \<Rightarrow> string \<Rightarrow> Repository response world
    \<Rightarrow> (Repository response world \<times> (string + Repository list)) option" where
  "Search_hourly srv query w = Search_loop True transient_hourly srv query 0 {} [] w"

definition Search_daily ::
  "(nat \<Rightarrow> Repository response) \<Rightarrow> string \<Rightarrow> Repository response world
    \<Rightarrow> (Repository response world \<times> (string + Repository list)) option" where
  "Search_daily srv query w = Search_loop False transient_daily srv query 0 {} [] w"

definition all_pages :: "(nat \<Rightarrow> 'r response) \<Rightarrow> bool" where
  "all_pages srv = (\<forall>n. \<exists>nodes hasNext. srv n = Page nodes hasNext)"

section \<open>The watermark search\<close>

text \<open>
  \<^verbatim>\<open>Search\<close> of the two watermark programs: one request, no retry.  The query gets the
  sort clause and, when \<open>since\<close> is set, the inclusive filter on the push time; the request
  carries no cursor.  It returns the repositories and whether this was the last page.
\<close>

definition watermark_query :: "string \<Rightarrow> Time option \<Rightarrow> string" where
  "watermark_query query since =
     query @ '' sort:updated-asc''
       @ (case since of None \<Rightarrow> [] | Some t \<Rightarrow> '' pushed:>='' @ Format_stamp t)"

definition Search_page ::
  "(nat \<Rightarrow> 'r response) \<Rightarrow> string \<Rightarrow> Time option \<Rightarrow> 'r response world
    \<Rightarrow> (string + 'r list \<times> bool) \<times> 'r response world" where
  "Search_page srv query since w =
     (let (res, w') = Query srv (watermark_query query since) None w
      in case res of
           Failure err \<Rightarrow> (Inl err, w')
         | Page nodes hasNextPage \<Rightarrow> (Inr (nodes, \<not> hasNextPage), w'))"

text \<open>
  The loop of \<^verbatim>\<open>IterSearch\<close> over one page.  \<open>out\<close> is what has been yielded so far and
  \<open>continue out\<close> is what \<^verbatim>\<open>yield\<close> returns to the iterator after the consumer has been
  handed the last element of \<open>out\<close>.  The third component says whether the loop ran to its
  end (\<open>False\<close>: the consumer stopped the iteration).
\<close>

fun yield_page ::
  "('r \<Rightarrow> 'k) \<Rightarrow> ('r list \<Rightarrow> bool) \<Rightarrow> 'r list \<Rightarrow> 'k set \<Rightarrow> 'r list \<Rightarrow> 'k set \<times> 'r list \<times> bool" where
  "yield_page key continue [] uniq out = (uniq, out, True)"
| "yield_page key continue (repo # repos) uniq out =
     (if key repo \<in> uniq then yield_page key continue repos uniq out
      else if \<not> continue (out @ [repo]) then (insert (key repo) uniq, out @ [repo], False)
      else yield_page key continue repos (insert (key repo) uniq) (out @ [repo]))"

definition secondary_rate_limit :: "string \<Rightarrow> bool" where
  "secondary_rate_limit err = Contains err ''You have exceeded a secondary rate limit.''"

text \<open>
  \<^verbatim>\<open>IterSearch\<close>.  The two watermark programs differ in the key of \<open>uniq\<close>
  (\<^verbatim>\<open>DatabaseId\<close>, and \<^verbatim>\<open>NameWithOwner\<close> in the earlier one) and in the struct, so the key
  and the field \<^verbatim>\<open>PushedAt\<close> are parameters.  The result is the world, the repositories
  yielded with a nil error, and the error of the final \<^verbatim>\<open>yield(Repository{}, err)\<close> if the
  iteration ended with one.
\<close>

partial_function (option) IterSearch_loop ::
  "('r \<Rightarrow> 'k) \<Rightarrow> ('r \<Rightarrow> Time) \<Rightarrow> (nat \<Rightarrow> 'r response) \<Rightarrow> ('r list \<Rightarrow> bool) \<Rightarrow> string
    \<Rightarrow> Time option \<Rightarrow> 'k set \<Rightarrow> 'r list \<Rightarrow> 'r response world
    \<Rightarrow> ('r response world \<times> 'r list \<times> string option) option"
where
  "IterSearch_loop key pushed srv continue query since uniq out w =
     (let (res, w1) = Search_page srv query since w
      in case res of
           Inl err \<Rightarrow>
             if secondary_rate_limit err
             then IterSearch_loop key pushed srv continue query since uniq out (Sleep_seconds 10 w1)
             else Some (w1, out, Some err)
         | Inr (repos, done) \<Rightarrow>
             let (uniq', out', finished) = yield_page key continue repos uniq out
             in if \<not> finished then Some (w1, out', None)
                else if done then Some (w1, out', None)
                else IterSearch_loop key pushed srv continue query
                       (if repos \<noteq> [] then Some (pushed (last repos)) else since) uniq' out' w1)"

definition IterSearch ::
  "(nat \<Rightarrow> Repository response) \<Rightarrow> (Repository list \<Rightarrow> bool) \<Rightarrow> string \<Rightarrow> Repository response world
    \<Rightarrow> (Repository response world \<times> Repository list \<times> string option) option" where
  "IterSearch srv continue query w =
     IterSearch_loop DatabaseId (\<lambda>r. PushedAt r) srv continue query None {} [] w"

definition IterSearch_by_name ::
  "(nat \<Rightarrow> RepositoryW response) \<Rightarrow> (RepositoryW list \<Rightarrow> bool) \<Rightarrow> string \<Rightarrow> RepositoryW response world
    \<Rightarrow> (RepositoryW response world \<times> RepositoryW list \<times> string option) option" where
  "IterSearch_by_name srv continue query w =
     IterSearch_loop W_NameWithOwner W_PushedAt srv continue query None {} [] w"

text \<open>The consumer of \<^verbatim>\<open>main\<close> never stops the iteration.\<close>

definition never_stop :: "'r list \<Rightarrow> bool" where
  "never_stop out = True"

section \<open>Reference notions for the statements\<close>

text \<open>The elements of a list whose key has not occurred before, nor in \<open>seen\<close>, in the
  order of the list.\<close>

fun first_seen :: "('r \<Rightarrow> 'k) \<Rightarrow> 'k set \<Rightarrow> 'r list \<Rightarrow> 'r list" where
  "first_seen key seen [] = []"
| "first_seen key seen (x # xs) =
     (if key x \<in> seen then first_seen key seen xs
      else x # first_seen key (insert (key x) seen) xs)"


section \<open>Sample inputs\<close>

definition at_second :: "int \<Rightarrow> Time" where
  "at_second s = \<lparr>sec = s, nsec = 0\<rparr>"

text \<open>A repository with the given identifier, display path and push time.\<close>

definition sample_repo :: "64 word \<Rightarrow> string \<Rightarrow> int \<Rightarrow> Repository" where
  "sample_repo ident path pushed =
     \<lparr>ArchivedAt = at_second 0, CreatedAt = at_second 63800000000, DatabaseId = ident,
      DiskUsage = 10, ForkCount = 2, NameWithOwner = path, PushedAt = at_second pushed,
      StargazerCount = 5, UpdatedAt = at_second pushed\<rparr>"

definition start_world :: "'a world" where
  "start_world = \<lparr>calls = 0, events = []\<rparr>"

definition repo_x :: Repository where
  "repo_x = sample_repo 1 ''a/x'' 63845000000"

definition repo_y :: Repository where
  "repo_y = sample_repo 2 ''a/y'' 63845000007"

definition repo_z :: Repository where
  "repo_z = sample_repo 3 ''a/z'' 63845000007"

text \<open>An endpoint with two pages that overlap in \<open>repo_y\<close>, which shares its push time
  with \<open>repo_z\<close>.\<close>

definition two_pages :: "nat \<Rightarrow> Repository response" where
  "two_pages n = (if n = 0 then Page [repo_x, repo_y] True else Page [repo_y, repo_z] False)"

text \<open>Giving every repository of a list a new display path, chosen by \<open>f\<close>.\<close>

definition rename :: "(Repository \<Rightarrow> string) \<Rightarrow> Repository list \<Rightarrow> Repository list" where
  "rename f rs = map (\<lambda>r. r\<lparr>NameWithOwner := f r\<rparr>) rs"

text \<open>A repository under its old and its new display path, and a different repository
  that took over the old path.\<close>

definition repo_old :: Repository where
  "repo_old = sample_repo 7 ''old/name'' 63845000000"

definition repo_new :: Repository where
  "repo_new = sample_repo 7 ''new/name'' 63845000000"

definition repo_other :: Repository where
  "repo_other = sample_repo 8 ''old/name'' 63845000000"

definition renamed_page :: "nat \<Rightarrow> Repository response" where
  "renamed_page n = Page [repo_old, repo_new] False"

definition reused_page :: "nat \<Rightarrow> Repository response" where
  "reused_page n = Page [repo_old, repo_other] False"

section \<open>Reference notions for the retry\<close>

text \<open>The world after \<open>n\<close> failed attempts of one request, each followed by the sleep of
  ten seconds (and preceded by the wait for the rate limiter where there is one).\<close>

definition retried :: "bool \<Rightarrow> string \<Rightarrow> string option \<Rightarrow> (nat \<Rightarrow> 'a) \<Rightarrow> nat \<Rightarrow> 'a world \<Rightarrow> 'a world" where
  "retried limited query cursor srv n w =
     w\<lparr>calls := calls w + n,
       events := events w @ concat (map (\<lambda>i. (if limited then [Take] else [])
                                               @ [Call query cursor (srv (calls w + i)), Sleep 10])
                                        [0..<n])\<rparr>"

text \<open>An endpoint that rejects the first two calls for the secondary rate limit, one that
  times out at the gateway once, and one that refuses the credentials.\<close>

definition rate_limited_twice :: "nat \<Rightarrow> Repository response" where
  "rate_limited_twice n =
     (if n < 2 then Failure ''403 You have exceeded a secondary rate limit. Please wait''
      else Page [repo_x] False)"

definition timeout_once :: "nat \<Rightarrow> Repository response" where
  "timeout_once n = (if n = 0 then Failure ''504 Gateway Timeout'' else Page [repo_x] False)"

definition bad_credentials :: "nat \<Rightarrow> Repository response" where
  "bad_credentials n = Failure ''401 Unauthorized: Bad credentials''"

section \<open>Reference notions for the offset walk\<close>

fun has_next :: "'r response \<Rightarrow> bool" where
  "has_next (Failure err) = False"
| "has_next (Page nodes hasNextPage) = hasNextPage"

text \<open>The query text asks for \<^verbatim>\<open>first: 100, after: $cursor\<close>: with the cursor of an
  offset the page holds the positions after it, a hundred of them at most.\<close>

definition page_positions :: "int \<Rightarrow> int set" where
  "page_positions offset = {offset + 1 .. offset + 100}"

text \<open>An endpoint whose every page is empty and announces a next page.\<close>

definition always_more :: "nat \<Rightarrow> Repository response" where
  "always_more n = Page [] True"

section \<open>Reference notions for the watermark\<close>

text \<open>The watermark after an answer: the push time of the last node of a page that has
  nodes; unchanged after an empty page or a failure.\<close>

definition next_since :: "('r \<Rightarrow> Time) \<Rightarrow> Time option \<Rightarrow> 'r response \<Rightarrow> Time option" where
  "next_since pushed since res =
     (case res of
        Failure err \<Rightarrow> since
      | Page nodes hasNextPage \<Rightarrow> if nodes \<noteq> [] then Some (pushed (last nodes)) else since)"


text \<open>The two overlapping pages in the struct of the earlier watermark program.\<close>

definition w_repo :: "string \<Rightarrow> int \<Rightarrow> RepositoryW" where
  "w_repo path pushed =
     \<lparr>W_NameWithOwner = path, W_CreatedAt = at_second 63800000000,
      W_PushedAt = at_second pushed, W_StargazerCount = 5\<rparr>"


section \<open>The metric-windowing program\<close>

text \<open>
  The program that sorts by stars, forks or size reads \<^verbatim>\<open>PageInfo.EndCursor\<close> too, so its
  pages carry it.  \<^verbatim>\<open>RepositorySearch\<close> follows the end cursor until a page announces
  no next page; it does not retry.
\<close>

datatype 'r cursor_response = CFailure string | CPage "'r list" string bool

partial_function (option) RepositorySearch_loop ::
  "(nat \<Rightarrow> RepositoryM cursor_response) \<Rightarrow> string \<Rightarrow> string option \<Rightarrow> RepositoryM list
    \<Rightarrow> RepositoryM cursor_response world
    \<Rightarrow> (RepositoryM cursor_response world \<times> (string + RepositoryM list)) option"
where
  "RepositorySearch_loop srv query cursor repos w =
     (let (res, w') = Query srv query cursor w
      in case res of
           CFailure err \<Rightarrow> Some (w', Inl err)
         | CPage nodes endCursor hasNextPage \<Rightarrow>
             if hasNextPage then RepositorySearch_loop srv query (Some endCursor) (repos @ nodes) w'
             else Some (w', Inr (repos @ nodes)))"

definition RepositorySearch ::
  "(nat \<Rightarrow> RepositoryM cursor_response) \<Rightarrow> string \<Rightarrow> RepositoryM cursor_response world
    \<Rightarrow> (RepositoryM cursor_response world \<times> (string + RepositoryM list)) option" where
  "RepositorySearch srv query w = RepositorySearch_loop srv query None [] w"

text \<open>The \<^verbatim>\<open>switch field\<close> in the loop over a batch: the value of the requested field;
  for any other field name \<open>value\<close> stays what it was.\<close>

definition field_value :: "string \<Rightarrow> RepositoryM \<Rightarrow> 64 word \<Rightarrow> 64 word" where
  "field_value field repo value =
     (if field = ''stars'' then M_StargazerCount repo
      else if field = ''forks'' then M_ForkCount repo
      else if field = ''size'' then M_DiskUsage repo
      else value)"

text \<open>The loop over a batch: \<open>value\<close> is set for every repository, and a line is printed
  for those whose display path is not in \<open>uniq\<close>.\<close>

fun print_repos ::
  "string \<Rightarrow> RepositoryM list \<Rightarrow> 64 word \<Rightarrow> string set \<Rightarrow> string list \<Rightarrow> 64 word \<times> string set \<times> string list" where
  "print_repos field [] value uniq out = (value, uniq, out)"
| "print_repos field (repo # repos) value uniq out =
     (let value' = field_value field repo value
      in if M_NameWithOwner repo \<in> uniq then print_repos field repos value' uniq out
         else print_repos field repos value' (insert (M_NameWithOwner repo) uniq)
                (out @ [M_NameWithOwner repo @ '','' @ FormatInt (sint value') @ [CHR 0x0A]]))"

definition metric_query :: "string \<Rightarrow> string \<Rightarrow> 64 word \<Rightarrow> string" where
  "metric_query query field lastValue =
     query @ ''sort:'' @ field
       @ (if lastValue = 0 then '' '' @ field @ '':>0''
          else '' '' @ field @ '':<='' @ FormatInt (sint lastValue))"

text \<open>
  The loop of \<^verbatim>\<open>main\<close>: one batch per round, until a batch is empty or ends on the value
  it was asked to start from.  The result is the world, the lines printed and the error of
  \<^verbatim>\<open>log.Fatal\<close>, if any.
\<close>

partial_function (option) metric_loop ::
  "(nat \<Rightarrow> RepositoryM cursor_response) \<Rightarrow> string \<Rightarrow> string \<Rightarrow> 64 word \<Rightarrow> string set \<Rightarrow> string list
    \<Rightarrow> RepositoryM cursor_response world
    \<Rightarrow> (RepositoryM cursor_response world \<times> string list \<times> string option) option"
where
  "metric_loop srv field query lastValue uniq out w =
     (case RepositorySearch srv (metric_query query field lastValue) w of
        None \<Rightarrow> None
      | Some (w', Inl err) \<Rightarrow> Some (w', out, Some err)
      | Some (w', Inr repos) \<Rightarrow>
          if repos = [] then Some (w', out, None)
          else
            let (value, uniq', out') = print_repos field repos 0 uniq out
            in if value = lastValue then Some (w', out', None)
               else metric_loop srv field query value uniq' out' w')"

text \<open>\<^verbatim>\<open>main\<close> from the command line on: the field and the optional query.\<close>

definition main_metric ::
  "string list \<Rightarrow> (nat \<Rightarrow> RepositoryM cursor_response) \<Rightarrow> RepositoryM cursor_response world
    \<Rightarrow> (RepositoryM cursor_response world \<times> string list \<times> string option) option" where
  "main_metric args srv w =
     (if length args = 3 \<or> length args = 2 then
        let query = (if length args = 3 then args ! 2 @ '' '' else []);
            field = args ! 1
        in if field = ''stars'' \<or> field = ''forks'' \<or> field = ''size''
           then metric_loop srv field query 0 {} [] w
           else Some (w, [], Some (''Unsupported field: '' @ field))
      else Some (w, [], Some ''Usage: (stars|forks|size) [query]''))"

definition m_repo :: "string \<Rightarrow> 64 word \<Rightarrow> RepositoryM" where
  "m_repo path stars =
     \<lparr>M_NameWithOwner = path, M_StargazerCount = stars, M_ForkCount = 1, M_DiskUsage = 100\<rparr>"

text \<open>An endpoint for the metric program: a first batch that ends on three stars, then a
  batch in which every repository has three.\<close>

definition star_batches :: "nat \<Rightarrow> RepositoryM cursor_response" where
  "star_batches n =
     (if n = 0 then CPage [m_repo ''a/x'' 5, m_repo ''a/y'' 3] ''Y3Vyc29yOjI='' False
      else CPage [m_repo ''a/y'' 3, m_repo ''a/z'' 3] ''Y3Vyc29yOjI='' False)"

text \<open>An endpoint for the watermark program that returns the same page for ever.\<close>

definition stuck_page :: "nat \<Rightarrow> Repository response" where
  "stuck_page n = Page [repo_y] True"

section \<open>Writing the records\<close>

text \<open>\<^verbatim>\<open>csvDateTime\<close> of the three later programs.\<close>

definition csvDateTime :: "Time \<Rightarrow> string" where
  "csvDateTime dt = (if IsZero dt then [] else Format_RFC3339 dt)"

text \<open>The record written for a repository by the three later programs, and by the earlier
  watermark program.\<close>

definition csv_row :: "Repository \<Rightarrow> string list" where
  "csv_row repo =
     (let (owner, name) = Cut_slash (NameWithOwner repo)
      in [owner, name,
          FormatInt (sint (DatabaseId repo)),
          FormatInt (sint (StargazerCount repo)),
          FormatInt (sint (ForkCount repo)),
          FormatInt (sint (DiskUsage repo)),
          csvDateTime (CreatedAt repo),
          csvDateTime (UpdatedAt repo),
          csvDateTime (PushedAt repo),
          csvDateTime (ArchivedAt repo)])"

definition csv_row_w :: "RepositoryW \<Rightarrow> string list" where
  "csv_row_w repo =
     [W_NameWithOwner repo,
      FormatInt (sint (W_StargazerCount repo)),
      Format_RFC3339 (W_CreatedAt repo),
      Format_RFC3339 (W_PushedAt repo)]"

text \<open>
  The ways a run of \<^verbatim>\<open>main\<close> ends in \<^verbatim>\<open>log.Fatalf\<close>.  The CSV writer is a sequence of
  outcomes like the endpoint: \<open>sink n\<close> is the error of writing the record number \<open>n\<close>, if
  that fails.  (The check of \<^verbatim>\<open>writer.Error()\<close> after the loop reports a failed write,
  which has ended the run before.)  Flag and date parsing are outside: a run starts from the
  query and the two parsed dates.
\<close>

datatype fatal = Search_failed string | Write_failed string | Start_after_end

fun write_rows ::
  "('r \<Rightarrow> string list) \<Rightarrow> (nat \<Rightarrow> string option) \<Rightarrow> 'r list \<Rightarrow> string list list
    \<Rightarrow> string list list \<times> string option" where
  "write_rows row sink [] rows = (rows, None)"
| "write_rows row sink (repo # repos) rows =
     (case sink (length rows) of
        Some err \<Rightarrow> (rows, Some err)
      | None \<Rightarrow> write_rows row sink repos (rows @ [row repo]))"

section \<open>The two programs that partition by creation date\<close>

definition day_query :: "string \<Rightarrow> Time \<Rightarrow> string" where
  "day_query query day =
     query @ '' created:'' @ Format_date day @ ''T00:00:00Z..'' @ Format_date day @ ''T23:59:59Z''"

definition hour_query :: "string \<Rightarrow> Time \<Rightarrow> int \<Rightarrow> string" where
  "hour_query query day hour =
     query @ '' created:'' @ Format_date day @ ''T'' @ Sprintf_02d hour @ '':00:00Z..''
       @ Format_date day @ ''T'' @ Sprintf_02d hour @ '':59:59Z''"

text \<open>The loop over the days of the daily program.  A search that never returns makes the
  run never return.\<close>

function days_loop_daily ::
  "(nat \<Rightarrow> Repository response) \<Rightarrow> (nat \<Rightarrow> string option) \<Rightarrow> string \<Rightarrow> Time \<Rightarrow> Time
    \<Rightarrow> string list list \<Rightarrow> Repository response world
    \<Rightarrow> (Repository response world \<times> string list list \<times> fatal option) option"
where
  "days_loop_daily srv sink query day endTime rows w =
     (if After day endTime then Some (w, rows, None)
      else
        case Search_daily srv (day_query query day) w of
          None \<Rightarrow> None
        | Some (w', Inl err) \<Rightarrow> Some (w', rows, Some (Search_failed err))
        | Some (w', Inr repos) \<Rightarrow>
            (case write_rows csv_row sink repos rows of
               (rows', Some err) \<Rightarrow> Some (w', rows', Some (Write_failed err))
             | (rows', None) \<Rightarrow>
                 days_loop_daily srv sink query (AddDate_day day) endTime rows' w'))"
  by pat_completeness auto
termination
  by (relation "measure (\<lambda>(srv, sink, query, day, endTime, rows, w). nat (sec endTime - sec day + 1))")
     (auto simp: After_def AddDate_day_def)

definition main_daily ::
  "(nat \<Rightarrow> Repository response) \<Rightarrow> (nat \<Rightarrow> string option) \<Rightarrow> string \<Rightarrow> Time \<Rightarrow> Time
    \<Rightarrow> Repository response world
    \<Rightarrow> (Repository response world \<times> string list list \<times> fatal option) option" where
  "main_daily srv sink query startTime endTime w =
     (if After startTime endTime then Some (w, [], Some Start_after_end)
      else days_loop_daily srv sink query startTime endTime [] w)"

text \<open>The hourly program: the same loop over the days, and within a day a loop over the
  hours 0 to 23.  (The count \<^verbatim>\<open>total\<close> is only logged.)\<close>

function hours_loop ::
  "(nat \<Rightarrow> Repository response) \<Rightarrow> (nat \<Rightarrow> string option) \<Rightarrow> string \<Rightarrow> Time \<Rightarrow> int
    \<Rightarrow> string list list \<Rightarrow> Repository response world
    \<Rightarrow> (Repository response world \<times> string list list \<times> fatal option) option"
where
  "hours_loop srv sink query day hour rows w =
     (if \<not> hour < 24 then Some (w, rows, None)
      else
        case Search_hourly srv (hour_query query day hour) w of
          None \<Rightarrow> None
        | Some (w', Inl err) \<Rightarrow> Some (w', rows, Some (Search_failed err))
        | Some (w', Inr repos) \<Rightarrow>
            (case write_rows csv_row sink repos rows of
               (rows', Some err) \<Rightarrow> Some (w', rows', Some (Write_failed err))
             | (rows', None) \<Rightarrow> hours_loop srv sink query day (hour + 1) rows' w'))"
  by pat_completeness auto
termination
  by (relation "measure (\<lambda>(srv, sink, query, day, hour, rows, w). nat (24 - hour))") auto

function days_loop_hourly ::
  "(nat \<Rightarrow> Repository response) \<Rightarrow> (nat \<Rightarrow> string option) \<Rightarrow> string \<Rightarrow> Time \<Rightarrow> Time
    \<Rightarrow> string list list \<Rightarrow> Repository response world
    \<Rightarrow> (Repository response world \<times> string list list \<times> fatal option) option"
where
  "days_loop_hourly srv sink query day endTime rows w =
     (if After day endTime then Some (w, rows, None)
      else
        case hours_loop srv sink query day 0 rows w of
          None \<Rightarrow> None
        | Some (w', rows', Some err) \<Rightarrow> Some (w', rows', Some err)
        | Some (w', rows', None) \<Rightarrow>
            days_loop_hourly srv sink query (AddDate_day day) endTime rows' w')"
  by pat_completeness auto
termination
  by (relation "measure (\<lambda>(srv, sink, query, day, endTime, rows, w). nat (sec endTime - sec day + 1))")
     (auto simp: After_def AddDate_day_def)

definition main_hourly ::
  "(nat \<Rightarrow> Repository response) \<Rightarrow> (nat \<Rightarrow> string option) \<Rightarrow> string \<Rightarrow> Time \<Rightarrow> Time
    \<Rightarrow> Repository response world
    \<Rightarrow> (Repository response world \<times> string list list \<times> fatal option) option" where
  "main_hourly srv sink query startTime endTime w =
     (if After startTime endTime then Some (w, [], Some Start_after_end)
      else days_loop_hourly srv sink query startTime endTime [] w)"

section \<open>The two watermark programs\<close>

text \<open>
  \<^verbatim>\<open>main\<close> ranges over \<^verbatim>\<open>IterSearch\<close> and writes a record for each repository; an error
  element or a failed write ends the process, which for the iteration is a consumer that
  stops.  So the consumer goes on exactly while the write of the repository just handed
  over succeeds.
\<close>

definition written :: "(nat \<Rightarrow> string option) \<Rightarrow> 'r list \<Rightarrow> bool" where
  "written sink out = (out = [] \<or> sink (length out - 1) = None)"

definition main_watermark ::
  "(nat \<Rightarrow> Repository response) \<Rightarrow> (nat \<Rightarrow> string option) \<Rightarrow> string \<Rightarrow> Repository response world
    \<Rightarrow> (Repository response world \<times> string list list \<times> fatal option) option" where
  "main_watermark srv sink query w =
     (case IterSearch srv (written sink) query w of
        None \<Rightarrow> None
      | Some (w', out, err) \<Rightarrow>
          (case write_rows csv_row sink out [] of
             (rows, Some e) \<Rightarrow> Some (w', rows, Some (Write_failed e))
           | (rows, None) \<Rightarrow>
               (case err of
                  Some e \<Rightarrow> Some (w', rows, Some (Search_failed e))
                | None \<Rightarrow> Some (w', rows, None))))"

definition main_by_name ::
  "(nat \<Rightarrow> RepositoryW response) \<Rightarrow> (nat \<Rightarrow> string option) \<Rightarrow> string \<Rightarrow> RepositoryW response world
    \<Rightarrow> (RepositoryW response world \<times> string list list \<times> fatal option) option" where
  "main_by_name srv sink query w =
     (case IterSearch_by_name srv (written sink) query w of
        None \<Rightarrow> None
      | Some (w', out, err) \<Rightarrow>
          (case write_rows csv_row_w sink out [] of
             (rows, Some e) \<Rightarrow> Some (w', rows, Some (Write_failed e))
           | (rows, None) \<Rightarrow>
               (case err of
                  Some e \<Rightarrow> Some (w', rows, Some (Search_failed e))
                | None \<Rightarrow> Some (w', rows, None))))"

text \<open>A writer that never fails, and an endpoint of the earlier watermark program with one
  repository that was never pushed to.\<close>

definition sink_ok :: "nat \<Rightarrow> string option" where
  "sink_ok n = None"

definition never_pushed :: "nat \<Rightarrow> RepositoryW response" where
  "never_pushed n = Page [w_repo ''a/x'' 0] False"

section \<open>Reference notions for the partition by creation date\<close>

text \<open>What \<^verbatim>\<open>time.ParseInLocation("2006-01-02", s, time.UTC)\<close> returns: the midnight that
  begins a day.\<close>

definition midnight :: "Time \<Rightarrow> bool" where
  "midnight t = (sec t mod 86400 = 0 \<and> nsec t = 0)"

definition plus_seconds :: "Time \<Rightarrow> int \<Rightarrow> Time" where
  "plus_seconds t s = t\<lparr>sec := sec t + s\<rparr>"

definition number_of_days :: "Time \<Rightarrow> Time \<Rightarrow> nat" where
  "number_of_days startTime endTime = nat ((sec endTime - sec startTime) div 86400) + 1"

text \<open>The windows of the partition, each with its first and its last second: one per day
  from the start date to the end date, and one per hour of these days.\<close>

definition day_windows :: "Time \<Rightarrow> Time \<Rightarrow> (Time \<times> Time) list" where
  "day_windows startTime endTime =
     map (\<lambda>i. (plus_seconds startTime (86400 * int i), plus_seconds startTime (86400 * int i + 86399)))
       [0..<number_of_days startTime endTime]"

definition hour_windows :: "Time \<Rightarrow> Time \<Rightarrow> (Time \<times> Time) list" where
  "hour_windows startTime endTime =
     map (\<lambda>k. (plus_seconds startTime (3600 * int k), plus_seconds startTime (3600 * int k + 3599)))
       [0..<24 * number_of_days startTime endTime]"

text \<open>The filter on the creation time for a window, both ends inclusive.\<close>

definition created_clause :: "Time \<times> Time \<Rightarrow> string" where
  "created_clause window = '' created:'' @ Format_stamp (fst window) @ ''..'' @ Format_stamp (snd window)"

text \<open>Windows that follow one another second by second: no second between two of them is
  left out and none is in both.\<close>

definition contiguous :: "(Time \<times> Time) list \<Rightarrow> bool" where
  "contiguous windows =
     (\<forall>i. Suc i < length windows \<longrightarrow> sec (fst (windows ! Suc i)) = sec (snd (windows ! i)) + 1)"

text \<open>
  Searching a list of queries one after the other, each search on its own: it starts at
  the offset 0 with an empty seen-set and an empty result.  The records of a search are
  written before the next search starts; a failed search or write ends the run.
\<close>

fun run_partitions ::
  "bool \<Rightarrow> (string \<Rightarrow> bool) \<Rightarrow> (nat \<Rightarrow> Repository response) \<Rightarrow> (nat \<Rightarrow> string option) \<Rightarrow> string list
    \<Rightarrow> string list list \<Rightarrow> Repository response world
    \<Rightarrow> (Repository response world \<times> string list list \<times> fatal option) option"
where
  "run_partitions limited transient srv sink [] rows w = Some (w, rows, None)"
| "run_partitions limited transient srv sink (query # queries) rows w =
     (case Search_loop limited transient srv query 0 {} [] w of
        None \<Rightarrow> None
      | Some (w', Inl err) \<Rightarrow> Some (w', rows, Some (Search_failed err))
      | Some (w', Inr repos) \<Rightarrow>
          (case write_rows csv_row sink repos rows of
             (rows', Some err) \<Rightarrow> Some (w', rows', Some (Write_failed err))
           | (rows', None) \<Rightarrow> run_partitions limited transient srv sink queries rows' w'))"

text \<open>An endpoint that returns the same repository with every call.\<close>

definition same_repo :: "nat \<Rightarrow> Repository response" where
  "same_repo n = Page [repo_x] False"

section \<open>Evaluating the formatters\<close>

lemma digit_table:
  "digit_char 0 = CHR ''0''" "digit_char 1 = CHR ''1''" "digit_char 2 = CHR ''2''"
  "digit_char 3 = CHR ''3''" "digit_char 4 = CHR ''4''" "digit_char 5 = CHR ''5''"
  "digit_char 6 = CHR ''6''" "digit_char 7 = CHR ''7''" "digit_char 8 = CHR ''8''"
  "digit_char 9 = CHR ''9''" "digit_char (Suc 0) = CHR ''1''"
  by code_simp+

lemmas civil_eval = civil_def civil_era_def civil_year_of_era_def civil_day_of_year_def
  civil_month_def civil_date_def

lemma replicate_small: "replicate 1 x = [x]" "replicate 2 x = [x, x]" "replicate 3 x = [x, x, x]"
  by (simp_all add: numeral_eq_Suc)

lemmas digits_eval = FormatInt_def appendInt_def zero_pad_def digits.simps digit_table Sprintf_02d_def
  replicate_small

lemmas format_eval = Format_RFC3339_def Format_stamp_def Format_date_def Format_clock_def
  at_second_def civil_eval Let_def

section \<open>Termination of the offset walk\<close>

lemma Search_loop_bounded:
  assumes "all_pages srv" and "1000 \<le> offset + 91 * int k"
  shows "\<exists>w' repos'. Search_loop limited transient srv query offset uniq repos w = Some (w', Inr repos')
           \<and> calls w' \<le> calls w + k"
  using assms(2)
proof (induction k arbitrary: offset uniq repos w)
  case 0
  then show ?case by (subst Search_loop.simps) simp
next
  case (Suc k)
  show ?case
  proof (cases "offset < 1000")
    case False
    then show ?thesis by (subst Search_loop.simps) simp
  next
    case True
    define w1 where "w1 = (if limited then rl_Take w else w)"
    obtain nodes hasNext where page: "srv (calls w1) = Page nodes hasNext"
      using assms(1) unfolding all_pages_def by blast
    define w2 where "w2 = snd (Query srv query (offset_cursor offset) w1)"
    have c2: "calls w2 = Suc (calls w)"
      by (simp add: w2_def w1_def Query_def rl_Take_def)
    obtain uniq' repos' where col: "collect nodes uniq repos = (uniq', repos')"
      by (cases "collect nodes uniq repos")
    have unfold: "Search_loop limited transient srv query offset uniq repos w =
        (if \<not> hasNext then Some (w2, Inr repos')
         else Search_loop limited transient srv query (offset + 91) uniq' repos' w2)"
      using True page col
      by (subst Search_loop.simps) (simp add: Let_def Query_def w2_def w1_def)
    show ?thesis
    proof (cases hasNext)
      case False
      then show ?thesis using unfold c2 by simp
    next
      case True
      have "1000 \<le> (offset + 91) + 91 * int k" using Suc.prems by simp
      from Suc.IH [OF this, of uniq' repos' w2]
      obtain w' r' where
        "Search_loop limited transient srv query (offset + 91) uniq' repos' w2 = Some (w', Inr r')"
        "calls w' \<le> calls w2 + k" by blast
      then show ?thesis using unfold True c2 by simp
    qed
  qed
qed

text \<open>
  C10.  When every call on the client is answered with a page, the offset-strategy
  \<^verbatim>\<open>Search\<close> returns a list of repositories after at most eleven requests, in the hourly
  and in the daily program, whatever the pages say about a next page.
\<close>

theorem Search_at_most_eleven_requests:
  assumes "all_pages srv"
  shows "(\<exists>w' repos. Search_hourly srv query w = Some (w', Inr repos) \<and> calls w' \<le> calls w + 11)
       \<and> (\<exists>w' repos. Search_daily srv query w = Some (w', Inr repos) \<and> calls w' \<le> calls w + 11)"
proof -
  have "1000 \<le> (0::int) + 91 * int 11" by simp
  from Search_loop_bounded [OF assms this] show ?thesis
    unfolding Search_hourly_def Search_daily_def by blast
qed

theorem Search_at_most_eleven_requests_witness:
  "all_pages two_pages
   \<and> (\<exists>w' repos. Search_hourly two_pages ''q'' start_world = Some (w', Inr repos) \<and> calls w' \<le> 11)
   \<and> (\<exists>w' repos. Search_daily two_pages ''q'' start_world = Some (w', Inr repos) \<and> calls w' \<le> 11)"
proof -
  have h: "all_pages two_pages" by (auto simp: all_pages_def two_pages_def)
  from Search_at_most_eleven_requests [OF h, of "''q''" start_world] h
  show ?thesis by (simp add: start_world_def)
qed

section \<open>Deduplication\<close>




lemma collect_first_seen:
  "collect nodes uniq repos = (uniq \<union> DatabaseId ` set nodes, repos @ first_seen DatabaseId uniq nodes)"
  by (induction nodes arbitrary: uniq repos) auto

lemma answers_append: "answers (xs @ ys) = answers xs @ answers ys"
  by (induction xs rule: answers.induct) auto





lemma yield_page_spec:
  "yield_page key continue repos uniq out = (uniq', out', finished) \<Longrightarrow>
     (\<exists>rest. out @ first_seen key uniq repos = out' @ rest)
     \<and> (finished \<longrightarrow> out' = out @ first_seen key uniq repos \<and> uniq' = uniq \<union> key ` set repos)
     \<and> ((\<forall>xs. continue xs) \<longrightarrow> finished)"
proof (induction repos arbitrary: uniq out)
  case Nil
  then show ?case by simp
next
  case (Cons repo repos)
  show ?case
  proof (cases "key repo \<in> uniq")
    case True
    with Cons.prems have "yield_page key continue repos uniq out = (uniq', out', finished)" by simp
    from Cons.IH [OF this] True show ?thesis by (auto simp: insert_absorb)
  next
    case False
    show ?thesis
    proof (cases "continue (out @ [repo])")
      case c: False
      with Cons.prems False show ?thesis by auto
    next
      case c: True
      with Cons.prems False
      have "yield_page key continue repos (insert (key repo) uniq) (out @ [repo]) = (uniq', out', finished)"
        by simp
      from Cons.IH [OF this] False show ?thesis by auto
    qed
  qed
qed



lemma added_append: "events w' = events w @ new \<Longrightarrow> added w w' = new"
  by (simp add: added_def)


lemma ids_distinct: "distinct (map DatabaseId [repo_x, repo_y, repo_z])"
  by (simp add: repo_x_def repo_y_def repo_z_def sample_repo_def)


lemma cursor_0: "offset_cursor 0 = None"
  by (simp add: offset_cursor_def)

lemmas b64_eval = offset_cursor_def EncodeToString_def digits_eval b64_char_def b64_alphabet_def

lemma cursor_91: "offset_cursor 91 = Some ''Y3Vyc29yOjkx''"
  by (simp add: b64_eval)

lemmas sample_defs = two_pages_def repo_x_def repo_y_def repo_z_def sample_repo_def start_world_def


lemma Search_daily_two_pages:
  "Search_daily two_pages query start_world =
     Some (\<lparr>calls = 2, events = [Call query None (two_pages 0),
                                   Call query (Some ''Y3Vyc29yOjkx'') (two_pages 1)]\<rparr>,
           Inr [repo_x, repo_y, repo_z])"
  by (simp add: Search_daily_def Search_loop.simps Query_def sample_defs cursor_0 cursor_91)






section \<open>The key of the seen-set\<close>

lemma first_seen_rename:
  "first_seen DatabaseId seen (rename f nodes) = rename f (first_seen DatabaseId seen nodes)"
  by (induction nodes arbitrary: seen) (auto simp: rename_def)

lemma rename_ids: "DatabaseId ` set (rename f nodes) = DatabaseId ` set nodes"
  by (auto simp: rename_def image_iff)

lemma collect_rename:
  "collect (rename f nodes) uniq (rename f repos)
     = (fst (collect nodes uniq repos), rename f (snd (collect nodes uniq repos)))"
  by (simp add: collect_first_seen first_seen_rename rename_ids) (simp add: rename_def)

lemma yield_page_never_stop:
  "yield_page key never_stop repos uniq out
     = (uniq \<union> key ` set repos, out @ first_seen key uniq repos, True)"
  by (induction repos arbitrary: uniq out) (auto simp: never_stop_def insert_absorb)

text \<open>
  C8.  In the three programs whose records carry the identifier, the seen-set is keyed by
  \<^verbatim>\<open>DatabaseId\<close> and by nothing else.  Of two nodes on a page the second is dropped exactly
  when it has the identifier of the first, whatever the display paths; and giving every
  node any other display path changes neither the seen-set nor which nodes are kept.
\<close>

theorem dedup_key_is_identifier:
  "(srv (calls w) = Page [a, b] False \<longrightarrow>
      (\<exists>w'. Search_hourly srv query w
               = Some (w', Inr (if DatabaseId a = DatabaseId b then [a] else [a, b])))
    \<and> (\<exists>w'. Search_daily srv query w
               = Some (w', Inr (if DatabaseId a = DatabaseId b then [a] else [a, b])))
    \<and> (\<exists>w'. IterSearch srv never_stop query w
               = Some (w', if DatabaseId a = DatabaseId b then [a] else [a, b], None)))
   \<and> collect (rename f nodes) uniq (rename f repos)
       = (fst (collect nodes uniq repos), rename f (snd (collect nodes uniq repos)))
   \<and> yield_page DatabaseId never_stop (rename f nodes) uniq (rename f repos)
       = (fst (yield_page DatabaseId never_stop nodes uniq repos),
          rename f (fst (snd (yield_page DatabaseId never_stop nodes uniq repos))), True)"
proof (intro conjI impI)
  assume p: "srv (calls w) = Page [a, b] False"
  then have p': "srv (calls (rl_Take w)) = Page [a, b] False" by (simp add: rl_Take_def)
  show "\<exists>w'. Search_hourly srv query w
               = Some (w', Inr (if DatabaseId a = DatabaseId b then [a] else [a, b]))"
    unfolding Search_hourly_def
    by (subst Search_loop.simps) (simp add: Query_def p' Let_def)
  show "\<exists>w'. Search_daily srv query w
               = Some (w', Inr (if DatabaseId a = DatabaseId b then [a] else [a, b]))"
    unfolding Search_daily_def
    by (subst Search_loop.simps) (simp add: Query_def p Let_def)
  show "\<exists>w'. IterSearch srv never_stop query w
               = Some (w', if DatabaseId a = DatabaseId b then [a] else [a, b], None)"
    unfolding IterSearch_def
    by (subst IterSearch_loop.simps) (simp add: Search_page_def Query_def p never_stop_def)
next
  show "collect (rename f nodes) uniq (rename f repos)
       = (fst (collect nodes uniq repos), rename f (snd (collect nodes uniq repos)))"
    by (rule collect_rename)
  show "yield_page DatabaseId never_stop (rename f nodes) uniq (rename f repos)
       = (fst (yield_page DatabaseId never_stop nodes uniq repos),
          rename f (fst (snd (yield_page DatabaseId never_stop nodes uniq repos))), True)"
    by (simp add: yield_page_never_stop first_seen_rename rename_ids) (simp add: rename_def)
qed

theorem dedup_key_is_identifier_witness:
  "NameWithOwner repo_old \<noteq> NameWithOwner repo_new
   \<and> (\<exists>w'. Search_hourly renamed_page ''q'' start_world = Some (w', Inr [repo_old]))
   \<and> (\<exists>w'. IterSearch renamed_page never_stop ''q'' start_world = Some (w', [repo_old], None))
   \<and> NameWithOwner repo_old = NameWithOwner repo_other
   \<and> (\<exists>w'. Search_daily reused_page ''q'' start_world = Some (w', Inr [repo_old, repo_other]))
   \<and> (\<exists>w'. IterSearch reused_page never_stop ''q'' start_world
              = Some (w', [repo_old, repo_other], None))"
proof -
  have same: "DatabaseId repo_old = DatabaseId repo_new"
    and differ: "DatabaseId repo_old \<noteq> DatabaseId repo_other"
    by (simp_all add: repo_old_def repo_new_def repo_other_def sample_repo_def)
  have a: "renamed_page (calls start_world) = Page [repo_old, repo_new] False"
    by (simp add: renamed_page_def)
  have b: "reused_page (calls start_world) = Page [repo_old, repo_other] False"
    by (simp add: reused_page_def)
  note r1 = dedup_key_is_identifier [of renamed_page start_world repo_old repo_new "''q''",
      THEN conjunct1, rule_format, OF a]
  note r2 = dedup_key_is_identifier [of reused_page start_world repo_old repo_other "''q''",
      THEN conjunct1, rule_format, OF b]
  from r1 r2 same differ show ?thesis
    by (simp add: repo_old_def repo_new_def repo_other_def sample_repo_def)
qed

section \<open>Retrying\<close>

lemma retried_0: "retried limited query cursor srv 0 w = w"
  by (simp add: retried_def)

lemma retried_Suc:
  "retried limited query cursor srv (Suc n) w
     = retried limited query cursor srv n
         (Sleep_seconds 10 (snd (Query srv query cursor (if limited then rl_Take w else w))))"
proof -
  have "[0..<Suc n] = 0 # map Suc [0..<n]"
    by (simp add: upt_conv_Cons map_Suc_upt del: upt_Suc)
  then show ?thesis
    by (simp add: retried_def Sleep_seconds_def Query_def rl_Take_def comp_def del: upt_Suc)
qed

lemma Search_loop_retries:
  assumes "offset < 1000"
    and "\<forall>i<n. \<exists>e. srv (calls w + i) = Failure e \<and> transient e"
  shows "Search_loop limited transient srv query offset uniq repos w
       = Search_loop limited transient srv query offset uniq repos
           (retried limited query (offset_cursor offset) srv n w)"
  using assms(2)
proof (induction n arbitrary: w)
  case 0
  show ?case by (simp add: retried_0)
next
  case (Suc n)
  define w1 where "w1 = (if limited then rl_Take w else w)"
  define w2 where "w2 = Sleep_seconds 10 (snd (Query srv query (offset_cursor offset) w1))"
  from Suc.prems obtain e where e: "srv (calls w) = Failure e" "transient e"
    by (metis add.right_neutral zero_less_Suc)
  have c1: "calls w1 = calls w" by (simp add: w1_def rl_Take_def)
  have c2: "calls w2 = Suc (calls w)" by (simp add: w2_def Sleep_seconds_def Query_def c1)
  have step: "Search_loop limited transient srv query offset uniq repos w
       = Search_loop limited transient srv query offset uniq repos w2"
    using assms(1) e c1
    by (subst Search_loop.simps) (simp add: Let_def Query_def w2_def w1_def)
  have "\<forall>i<n. \<exists>e. srv (calls w2 + i) = Failure e \<and> transient e"
    using Suc.prems c2 by (metis Suc_less_eq add_Suc add_Suc_right)
  from Suc.IH [OF this] step show ?case
    by (simp add: retried_Suc w2_def w1_def)
qed

lemma Search_loop_fatal:
  assumes "offset < 1000" and "srv (calls w) = Failure err" and "\<not> transient err"
  shows "Search_loop limited transient srv query offset uniq repos w
       = Some (snd (Query srv query (offset_cursor offset) (if limited then rl_Take w else w)), Inl err)"
  using assms by (subst Search_loop.simps) (simp add: Let_def Query_def rl_Take_def)

lemma IterSearch_loop_retries:
  assumes "\<forall>i<n. \<exists>e. srv (calls w + i) = Failure e \<and> secondary_rate_limit e"
  shows "IterSearch_loop key pushed srv continue query since uniq out w
       = IterSearch_loop key pushed srv continue query since uniq out
           (retried False (watermark_query query since) None srv n w)"
  using assms
proof (induction n arbitrary: w)
  case 0
  show ?case by (simp add: retried_0)
next
  case (Suc n)
  define w2 where "w2 = Sleep_seconds 10 (snd (Query srv (watermark_query query since) None w))"
  from Suc.prems obtain e where e: "srv (calls w) = Failure e" "secondary_rate_limit e"
    by (metis add.right_neutral zero_less_Suc)
  have c2: "calls w2 = Suc (calls w)" by (simp add: w2_def Sleep_seconds_def Query_def)
  have step: "IterSearch_loop key pushed srv continue query since uniq out w
       = IterSearch_loop key pushed srv continue query since uniq out w2"
    using e by (subst IterSearch_loop.simps) (simp add: Search_page_def Query_def w2_def)
  have "\<forall>i<n. \<exists>e. srv (calls w2 + i) = Failure e \<and> secondary_rate_limit e"
    using Suc.prems c2 by (metis Suc_less_eq add_Suc add_Suc_right)
  from Suc.IH [OF this] step show ?case
    by (simp add: retried_Suc w2_def)
qed

lemma IterSearch_loop_fatal:
  assumes "srv (calls w) = Failure err" and "\<not> secondary_rate_limit err"
  shows "IterSearch_loop key pushed srv continue query since uniq out w
       = Some (snd (Query srv (watermark_query query since) None w), out, Some err)"
  using assms by (subst IterSearch_loop.simps) (simp add: Search_page_def Query_def)


lemma msg_rate: "secondary_rate_limit ''403 You have exceeded a secondary rate limit. Please wait''"
  "transient_hourly ''403 You have exceeded a secondary rate limit. Please wait''"
  "transient_daily ''403 You have exceeded a secondary rate limit. Please wait''"
  by code_simp+

lemma msg_timeout: "\<not> secondary_rate_limit ''504 Gateway Timeout''"
  "transient_hourly ''504 Gateway Timeout''" "transient_daily ''504 Gateway Timeout''"
  by code_simp+

lemma msg_credentials: "\<not> secondary_rate_limit ''401 Unauthorized: Bad credentials''"
  "\<not> transient_hourly ''401 Unauthorized: Bad credentials''"
  "\<not> transient_daily ''401 Unauthorized: Bad credentials''"
  by code_simp+

text \<open>
  C4, as the programs have it.  The offset \<^verbatim>\<open>Search\<close> takes an error for transient
  exactly when its message contains one of three texts (the secondary rate limit,
  ``Something went wrong while executing your query'', ``504 Gateway Timeout''; the daily
  program spells the first two with the final full stop); \<^verbatim>\<open>IterSearch\<close> of the
  watermark programs takes it for transient exactly when the message contains
  ``You have exceeded a secondary rate limit.''.  After any number \<open>n\<close> of transient
  failures in a row the loop stands where it stood, with \<open>n\<close> identical requests and
  \<open>n\<close> sleeps of ten seconds on the record; any other error ends the iteration at once
  with that error.
\<close>

theorem retry_policy:
  "(transient_hourly err \<longleftrightarrow>
      Contains err ''You have exceeded a secondary rate limit''
      \<or> Contains err ''Something went wrong while executing your query''
      \<or> Contains err ''504 Gateway Timeout'')
   \<and> (transient_daily err \<longleftrightarrow>
      Contains err ''You have exceeded a secondary rate limit.''
      \<or> Contains err ''Something went wrong while executing your query.''
      \<or> Contains err ''504 Gateway Timeout'')
   \<and> (secondary_rate_limit err \<longleftrightarrow> Contains err ''You have exceeded a secondary rate limit.'')
   \<and> (offset < 1000 \<and> (\<forall>i<n. \<exists>e. srv (calls w + i) = Failure e \<and> transient_hourly e) \<longrightarrow>
        Search_loop True transient_hourly srv query offset uniq repos w
          = Search_loop True transient_hourly srv query offset uniq repos
              (retried True query (offset_cursor offset) srv n w))
   \<and> (offset < 1000 \<and> (\<forall>i<n. \<exists>e. srv (calls w + i) = Failure e \<and> transient_daily e) \<longrightarrow>
        Search_loop False transient_daily srv query offset uniq repos w
          = Search_loop False transient_daily srv query offset uniq repos
              (retried False query (offset_cursor offset) srv n w))
   \<and> (offset < 1000 \<and> srv (calls w) = Failure err \<and> \<not> transient_hourly err \<longrightarrow>
        Search_loop True transient_hourly srv query offset uniq repos w
          = Some (snd (Query srv query (offset_cursor offset) (rl_Take w)), Inl err))
   \<and> (offset < 1000 \<and> srv (calls w) = Failure err \<and> \<not> transient_daily err \<longrightarrow>
        Search_loop False transient_daily srv query offset uniq repos w
          = Some (snd (Query srv query (offset_cursor offset) w), Inl err))
   \<and> ((\<forall>i<n. \<exists>e. srv' (calls w' + i) = Failure e \<and> secondary_rate_limit e) \<longrightarrow>
        IterSearch_loop key pushed srv' continue query since seen out w'
          = IterSearch_loop key pushed srv' continue query since seen out
              (retried False (watermark_query query since) None srv' n w'))
   \<and> (srv' (calls w') = Failure err \<and> \<not> secondary_rate_limit err \<longrightarrow>
        IterSearch_loop key pushed srv' continue query since seen out w'
          = Some (snd (Query srv' (watermark_query query since) None w'), out, Some err))"
  using Search_loop_retries [of offset n srv w transient_hourly True query uniq repos]
    Search_loop_retries [of offset n srv w transient_daily False query uniq repos]
    Search_loop_fatal [of offset srv w err transient_hourly True query uniq repos]
    Search_loop_fatal [of offset srv w err transient_daily False query uniq repos]
    IterSearch_loop_retries [of n srv' w' key pushed continue query since seen out]
    IterSearch_loop_fatal [of srv' w' err key pushed continue query since seen out]
  by (simp add: transient_hourly_def transient_daily_def secondary_rate_limit_def)

lemma upt_2: "[0..<2] = [0, Suc 0]"
  by (simp add: numeral_2_eq_2)

theorem retry_policy_witness:
  "Search_hourly rate_limited_twice ''q'' start_world =
     Some (\<lparr>calls = 3,
             events = [Take, Call ''q'' None (rate_limited_twice 0), Sleep 10,
                       Take, Call ''q'' None (rate_limited_twice 1), Sleep 10,
                       Take, Call ''q'' None (rate_limited_twice 2)]\<rparr>, Inr [repo_x])
   \<and> Search_daily bad_credentials ''q'' start_world =
     Some (\<lparr>calls = 1, events = [Call ''q'' None (bad_credentials 0)]\<rparr>,
           Inl ''401 Unauthorized: Bad credentials'')
   \<and> IterSearch rate_limited_twice never_stop ''q'' start_world =
     Some (\<lparr>calls = 3,
             events = [Call ''q sort:updated-asc'' None (rate_limited_twice 0), Sleep 10,
                       Call ''q sort:updated-asc'' None (rate_limited_twice 1), Sleep 10,
                       Call ''q sort:updated-asc'' None (rate_limited_twice 2)]\<rparr>, [repo_x], None)
   \<and> IterSearch bad_credentials never_stop ''q'' start_world =
     Some (\<lparr>calls = 1, events = [Call ''q sort:updated-asc'' None (bad_credentials 0)]\<rparr>, [],
           Some ''401 Unauthorized: Bad credentials'')"
proof -
  note rp = retry_policy [of _ 0 2 rate_limited_twice start_world "''q''" "{}" "[]"
      rate_limited_twice start_world DatabaseId "\<lambda>r. PushedAt r" never_stop None "{}" "[]"]
  note bc = retry_policy [of "''401 Unauthorized: Bad credentials''" 0 0 bad_credentials start_world
      "''q''" "{}" "[]" bad_credentials start_world DatabaseId "\<lambda>r. PushedAt r" never_stop None
      "{}" "[]"]
  note fatal_daily = bc [THEN conjunct2, THEN conjunct2, THEN conjunct2, THEN conjunct2,
      THEN conjunct2, THEN conjunct2, THEN conjunct1]
  note fatal_iter = bc [THEN conjunct2, THEN conjunct2, THEN conjunct2, THEN conjunct2,
      THEN conjunct2, THEN conjunct2, THEN conjunct2, THEN conjunct2]
  note retry_hourly = rp [THEN conjunct2, THEN conjunct2, THEN conjunct2, THEN conjunct1]
  note retry_iter = rp [THEN conjunct2, THEN conjunct2, THEN conjunct2, THEN conjunct2,
      THEN conjunct2, THEN conjunct2, THEN conjunct2, THEN conjunct1]
  have two: "\<forall>i<2. \<exists>e. rate_limited_twice (calls start_world + i) = Failure e \<and> transient_hourly e"
    "\<forall>i<2. \<exists>e. rate_limited_twice (calls start_world + i) = Failure e \<and> secondary_rate_limit e"
    by (simp_all add: rate_limited_twice_def msg_rate start_world_def)
  have bad: "bad_credentials (calls start_world) = Failure ''401 Unauthorized: Bad credentials''"
    by (simp add: bad_credentials_def)
  have "Search_hourly rate_limited_twice ''q'' start_world =
     Some (\<lparr>calls = 3,
             events = [Take, Call ''q'' None (rate_limited_twice 0), Sleep 10,
                       Take, Call ''q'' None (rate_limited_twice 1), Sleep 10,
                       Take, Call ''q'' None (rate_limited_twice 2)]\<rparr>, Inr [repo_x])"
    using retry_hourly two(1) unfolding Search_hourly_def
    by (simp add: retried_def upt_2 cursor_0 start_world_def)
       (simp add: Search_loop.simps Query_def rl_Take_def cursor_0 rate_limited_twice_def)
  moreover have "Search_daily bad_credentials ''q'' start_world =
     Some (\<lparr>calls = 1, events = [Call ''q'' None (bad_credentials 0)]\<rparr>,
           Inl ''401 Unauthorized: Bad credentials'')"
    using fatal_daily bad msg_credentials unfolding Search_daily_def
    by (simp add: Query_def cursor_0 start_world_def bad_credentials_def)
  moreover have "IterSearch rate_limited_twice never_stop ''q'' start_world =
     Some (\<lparr>calls = 3,
             events = [Call ''q sort:updated-asc'' None (rate_limited_twice 0), Sleep 10,
                       Call ''q sort:updated-asc'' None (rate_limited_twice 1), Sleep 10,
                       Call ''q sort:updated-asc'' None (rate_limited_twice 2)]\<rparr>, [repo_x], None)"
    using retry_iter two(2) unfolding IterSearch_def
    by (simp add: retried_def upt_2 start_world_def watermark_query_def)
       (simp add: IterSearch_loop.simps Search_page_def Query_def rate_limited_twice_def
          watermark_query_def never_stop_def)
  moreover have "IterSearch bad_credentials never_stop ''q'' start_world =
     Some (\<lparr>calls = 1, events = [Call ''q sort:updated-asc'' None (bad_credentials 0)]\<rparr>, [],
           Some ''401 Unauthorized: Bad credentials'')"
    using fatal_iter bad msg_credentials unfolding IterSearch_def
    by (simp add: Query_def start_world_def bad_credentials_def watermark_query_def)
  ultimately show ?thesis by simp
qed

text \<open>
  C4 as stated fails for the watermark programs: a gateway timeout is not retried there.
  The endpoint \<open>timeout_once\<close> would answer the second call with a page, but
  \<^verbatim>\<open>IterSearch\<close> ends with the error after one call, without a sleep.
\<close>

theorem gateway_timeout_ends_IterSearch:
  "IterSearch timeout_once never_stop ''q'' start_world =
     Some (\<lparr>calls = 1, events = [Call ''q sort:updated-asc'' None (Failure ''504 Gateway Timeout'')]\<rparr>,
           [], Some ''504 Gateway Timeout'')"
  unfolding IterSearch_def
  by (subst IterSearch_loop.simps)
     (simp add: Search_page_def Query_def timeout_once_def start_world_def msg_timeout
        watermark_query_def)

section \<open>The offsets walked\<close>

lemma requests_append: "requests (xs @ ys) = requests xs @ requests ys"
  by (induction xs rule: requests.induct) auto

lemma upt_shift: "map f [0..<Suc m] = f 0 # map (\<lambda>i. f (Suc i)) [0..<m]"
  by (simp add: upt_conv_Cons map_Suc_upt [symmetric] comp_def del: upt_Suc)

lemma Search_loop_walk:
  assumes "all_pages srv" and "1000 \<le> offset + 91 * int j"
  shows "\<exists>m w' repos' new.
           Search_loop limited transient srv query offset uniq repos w = Some (w', Inr repos')
           \<and> m \<le> j \<and> calls w' = calls w + m \<and> events w' = events w @ new
           \<and> requests new = map (\<lambda>i. (query, offset_cursor (offset + 91 * int i))) [0..<m]
           \<and> answers new = map (\<lambda>i. srv (calls w + i)) [0..<m]
           \<and> (\<forall>i. Suc i < m \<longrightarrow> has_next (srv (calls w + i)))
           \<and> (offset < 1000 \<longrightarrow> 1 \<le> m)
           \<and> (offset + 91 * int m < 1000 \<longrightarrow> \<not> has_next (srv (calls w + (m - 1))))"
  using assms(2)
proof (induction j arbitrary: offset uniq repos w)
  case 0
  then have "Search_loop limited transient srv query offset uniq repos w = Some (w, Inr repos)"
    by (subst Search_loop.simps) simp
  with 0 show ?case by (intro exI [of _ 0] exI [of _ w] exI [of _ repos] exI [of _ "[]"]) simp
next
  case (Suc j)
  show ?case
  proof (cases "offset < 1000")
    case False
    then have "Search_loop limited transient srv query offset uniq repos w = Some (w, Inr repos)"
      by (subst Search_loop.simps) simp
    with False show ?thesis
      by (intro exI [of _ 0] exI [of _ w] exI [of _ repos] exI [of _ "[]"]) simp
  next
    case True
    define w1 where "w1 = (if limited then rl_Take w else w)"
    obtain nodes hasNext where page: "srv (calls w) = Page nodes hasNext"
      using assms(1) unfolding all_pages_def by blast
    define pre where "pre = (if limited then [Take] else []) @ [Call query (offset_cursor offset) (srv (calls w))]"
    define w2 where "w2 = snd (Query srv query (offset_cursor offset) w1)"
    have c2: "calls w2 = Suc (calls w)" and e2: "events w2 = events w @ pre"
      by (simp_all add: w2_def w1_def pre_def Query_def rl_Take_def)
    have rp: "requests pre = [(query, offset_cursor offset)]" "answers pre = [srv (calls w)]"
      by (simp_all add: pre_def)
    obtain uniq' repos' where col: "collect nodes uniq repos = (uniq', repos')"
      by (cases "collect nodes uniq repos")
    have c1: "calls w1 = calls w" by (simp add: w1_def rl_Take_def)
    have unfold: "Search_loop limited transient srv query offset uniq repos w =
        (if \<not> hasNext then Some (w2, Inr repos')
         else Search_loop limited transient srv query (offset + 91) uniq' repos' w2)"
      using True page col c1
      by (subst Search_loop.simps) (simp add: Let_def Query_def w2_def w1_def)
    show ?thesis
    proof (cases hasNext)
      case False
      with unfold have "Search_loop limited transient srv query offset uniq repos w = Some (w2, Inr repos')"
        by simp
      then show ?thesis using c2 e2 rp page False
        by (intro exI [of _ 1] exI [of _ w2] exI [of _ repos'] exI [of _ pre]) simp
    next
      case h: True
      have "1000 \<le> (offset + 91) + 91 * int j" using Suc.prems by simp
      from Suc.IH [OF this, of uniq' repos' w2]
      obtain m w' r' new where ih:
        "Search_loop limited transient srv query (offset + 91) uniq' repos' w2 = Some (w', Inr r')"
        "m \<le> j" "calls w' = calls w2 + m" "events w' = events w2 @ new"
        "requests new = map (\<lambda>i. (query, offset_cursor (offset + 91 + 91 * int i))) [0..<m]"
        "answers new = map (\<lambda>i. srv (calls w2 + i)) [0..<m]"
        "\<forall>i. Suc i < m \<longrightarrow> has_next (srv (calls w2 + i))"
        "offset + 91 < 1000 \<longrightarrow> 1 \<le> m"
        "offset + 91 + 91 * int m < 1000 \<longrightarrow> \<not> has_next (srv (calls w2 + (m - 1)))"
        by blast
      have run: "Search_loop limited transient srv query offset uniq repos w = Some (w', Inr r')"
        using unfold h ih(1) by simp
      have req: "requests (pre @ new) = map (\<lambda>i. (query, offset_cursor (offset + 91 * int i))) [0..<Suc m]"
        unfolding upt_shift by (simp add: requests_append rp ih(5) algebra_simps)
      have ans: "answers (pre @ new) = map (\<lambda>i. srv (calls w + i)) [0..<Suc m]"
        unfolding upt_shift by (simp add: answers_append rp ih(6) c2)
      have nxt: "\<forall>i. Suc i < Suc m \<longrightarrow> has_next (srv (calls w + i))"
      proof (intro allI impI)
        fix i assume "Suc i < Suc m"
        show "has_next (srv (calls w + i))"
        proof (cases i)
          case 0
          then show ?thesis using page h by simp
        next
          case (Suc i')
          with \<open>Suc i < Suc m\<close> ih(7) c2 show ?thesis by simp
        qed
      qed
      have last: "offset + 91 * int (Suc m) < 1000 \<longrightarrow> \<not> has_next (srv (calls w + (Suc m - 1)))"
      proof
        assume a: "offset + 91 * int (Suc m) < 1000"
        then have "offset + 91 < 1000" by simp
        with ih(8) have "1 \<le> m" by simp
        moreover from a ih(9) have "\<not> has_next (srv (calls w2 + (m - 1)))" by (simp add: algebra_simps)
        ultimately show "\<not> has_next (srv (calls w + (Suc m - 1)))" using c2 by simp
      qed
      show ?thesis
        using run ih(2,3,4) req ans nxt last c2 e2
        by (intro exI [of _ "Suc m"] exI [of _ w'] exI [of _ r'] exI [of _ "pre @ new"]) simp
    qed
  qed
qed

lemma overlap: "card (page_positions (91 * i) \<inter> page_positions (91 * (i + 1))) = 9"
proof -
  have "page_positions (91 * i) \<inter> page_positions (91 * (i + 1)) = {91 * i + 92 .. 91 * i + 100}"
    by (auto simp: page_positions_def)
  then show ?thesis by simp
qed


text \<open>
  C2.  When every call is answered with a page, \<^verbatim>\<open>Search\<close> makes \<open>m\<close> requests, one to
  eleven of them, for the offsets 0, 91, 182, ... in this order: without a cursor for the
  offset 0 and with the base64 text of \<^verbatim>\<open>cursor:N\<close> for a positive offset \<open>N\<close>.  All these
  offsets are below 1000 and the next one, 1001, is not.  Every page before the last one
  announced a next page, and if the walk ended before the eleventh request its last page
  announced none.  Two successive pages of a hundred overlap in nine positions.
\<close>

theorem offsets_walked:
  assumes "all_pages srv"
  shows "(\<exists>m w' repos. Search_hourly srv query w = Some (w', Inr repos) \<and> 1 \<le> m \<and> m \<le> 11
            \<and> requests (added w w') = map (\<lambda>i. (query, offset_cursor (91 * int i))) [0..<m]
            \<and> (\<forall>i. Suc i < m \<longrightarrow> has_next (srv (calls w + i)))
            \<and> (m < 11 \<longrightarrow> \<not> has_next (srv (calls w + (m - 1)))))
       \<and> (\<exists>m w' repos. Search_daily srv query w = Some (w', Inr repos) \<and> 1 \<le> m \<and> m \<le> 11
            \<and> requests (added w w') = map (\<lambda>i. (query, offset_cursor (91 * int i))) [0..<m]
            \<and> (\<forall>i. Suc i < m \<longrightarrow> has_next (srv (calls w + i)))
            \<and> (m < 11 \<longrightarrow> \<not> has_next (srv (calls w + (m - 1)))))
       \<and> offset_cursor 0 = None
       \<and> (\<forall>i>0. offset_cursor (91 * int i) = Some (EncodeToString (''cursor:'' @ FormatInt (91 * int i))))
       \<and> (\<forall>i<11. 91 * int i < 1000) \<and> \<not> 91 * int 11 < 1000
       \<and> card (page_positions (91 * k) \<inter> page_positions (91 * (k + 1))) = 9"
proof -
  have walk: "\<exists>m w' repos. Search_loop limited transient srv query 0 {} [] w = Some (w', Inr repos)
            \<and> 1 \<le> m \<and> m \<le> 11
            \<and> requests (added w w') = map (\<lambda>i. (query, offset_cursor (91 * int i))) [0..<m]
            \<and> (\<forall>i. Suc i < m \<longrightarrow> has_next (srv (calls w + i)))
            \<and> (m < 11 \<longrightarrow> \<not> has_next (srv (calls w + (m - 1))))" for limited transient
  proof -
    have "1000 \<le> (0::int) + 91 * int 11" by simp
    from Search_loop_walk [OF assms this, of limited transient query "{}" "[]" w]
    obtain m w' repos' new where r:
      "Search_loop limited transient srv query 0 {} [] w = Some (w', Inr repos')"
      "m \<le> 11" "events w' = events w @ new"
      "requests new = map (\<lambda>i. (query, offset_cursor (0 + 91 * int i))) [0..<m]"
      "\<forall>i. Suc i < m \<longrightarrow> has_next (srv (calls w + i))"
      "(0::int) < 1000 \<longrightarrow> 1 \<le> m"
      "0 + 91 * int m < 1000 \<longrightarrow> \<not> has_next (srv (calls w + (m - 1)))"
      by blast
    have "m < 11 \<longrightarrow> \<not> has_next (srv (calls w + (m - 1)))" using r(7) by auto
    with r show ?thesis
      by (intro exI [of _ m] exI [of _ w'] exI [of _ repos']) (simp add: added_append)
  qed
  have "\<forall>i>0. offset_cursor (91 * int i) = Some (EncodeToString (''cursor:'' @ FormatInt (91 * int i)))"
    by (simp add: offset_cursor_def)
  moreover have "\<forall>i<11. 91 * int i < 1000" by auto
  ultimately show ?thesis
    using walk [of True transient_hourly] walk [of False transient_daily] overlap [of k]
    unfolding Search_hourly_def Search_daily_def
    by (simp add: cursor_0)
qed

lemma upt_11: "[0..<11] = [0, 1, 2, 3, 4, 5, 6, 7, 8, 9, 10]"
  by (simp add: upt_rec)

lemma eleven_requests:
  "map (\<lambda>i. (''q'', offset_cursor (91 * int i))) [0..<11]
     = [(''q'', None), (''q'', Some ''Y3Vyc29yOjkx''), (''q'', Some ''Y3Vyc29yOjE4Mg==''),
        (''q'', Some ''Y3Vyc29yOjI3Mw==''), (''q'', Some ''Y3Vyc29yOjM2NA==''),
        (''q'', Some ''Y3Vyc29yOjQ1NQ==''), (''q'', Some ''Y3Vyc29yOjU0Ng==''),
        (''q'', Some ''Y3Vyc29yOjYzNw==''), (''q'', Some ''Y3Vyc29yOjcyOA==''),
        (''q'', Some ''Y3Vyc29yOjgxOQ==''), (''q'', Some ''Y3Vyc29yOjkxMA=='')]"
  unfolding upt_11 by (simp add: b64_eval)

theorem offsets_walked_witness:
  "all_pages always_more
   \<and> (\<exists>w' repos. Search_daily always_more ''q'' start_world = Some (w', Inr repos)
        \<and> requests (added start_world w')
          = [(''q'', None), (''q'', Some ''Y3Vyc29yOjkx''), (''q'', Some ''Y3Vyc29yOjE4Mg==''),
             (''q'', Some ''Y3Vyc29yOjI3Mw==''), (''q'', Some ''Y3Vyc29yOjM2NA==''),
             (''q'', Some ''Y3Vyc29yOjQ1NQ==''), (''q'', Some ''Y3Vyc29yOjU0Ng==''),
             (''q'', Some ''Y3Vyc29yOjYzNw==''), (''q'', Some ''Y3Vyc29yOjcyOA==''),
             (''q'', Some ''Y3Vyc29yOjgxOQ==''), (''q'', Some ''Y3Vyc29yOjkxMA=='')])"
proof -
  have h: "all_pages always_more" by (auto simp: all_pages_def always_more_def)
  from offsets_walked [OF h, of "''q''" start_world, THEN conjunct2, THEN conjunct1]
  obtain m w' repos where r:
    "Search_daily always_more ''q'' start_world = Some (w', Inr repos)" "m \<le> 11"
    "requests (added start_world w') = map (\<lambda>i. (''q'', offset_cursor (91 * int i))) [0..<m]"
    "m < 11 \<longrightarrow> \<not> has_next (always_more (calls (start_world :: Repository response world) + (m - 1)))"
    by blast
  from r(2,4) have "m = 11" by (auto simp: always_more_def)
  with r(1,3) h show ?thesis by (simp only: eleven_requests) simp
qed

section \<open>The watermark requests\<close>









section \<open>Ties at the watermark\<close>





section \<open>Guarding against a repeated boundary\<close>

lemma print_repos_value:
  assumes "field = ''stars'' \<or> field = ''forks'' \<or> field = ''size''" and "repos \<noteq> []"
  shows "fst (print_repos field repos v uniq out) = field_value field (last repos) v0"
  using assms(2)
proof (induction repos arbitrary: v uniq out)
  case Nil
  then show ?case by simp
next
  case (Cons repo repos)
  show ?case
  proof (cases "repos = []")
    case True
    then show ?thesis using assms(1) by (auto simp: Let_def field_value_def)
  next
    case False
    from Cons.IH [OF False] False show ?thesis by (auto simp: Let_def)
  qed
qed

lemma IterSearch_loop_never_returns:
  assumes "IterSearch_loop key pushed srv continue query since uniq out w = Some y"
  shows "\<not> ((\<forall>n. \<exists>nodes. srv n = Page nodes True) \<and> (\<forall>xs. continue xs))"
proof (rule IterSearch_loop.raw_induct
    [where P = "\<lambda>key pushed srv continue query since uniq out w y.
       \<not> ((\<forall>n. \<exists>nodes. srv n = Page nodes True) \<and> (\<forall>xs. continue xs))", OF _ assms], goal_cases)
  case (1 f key pushed srv continue query since uniq out w y)
  show ?case
  proof
    assume a: "(\<forall>n. \<exists>nodes. srv n = Page nodes True) \<and> (\<forall>xs. continue xs)"
    then obtain nodes where p: "srv (calls w) = Page nodes True" by blast
    obtain uniq' out' finished where
      yp: "yield_page key continue nodes uniq out = (uniq', out', finished)"
      by (cases "yield_page key continue nodes uniq out")
    from yield_page_spec [OF yp] a have "finished" by blast
    with 1(2) p yp obtain since' w1 where "f key pushed srv continue query since' uniq' out' w1 = Some y"
      by (auto simp: Search_page_def Query_def)
    from 1(1) [OF this] a show False by blast
  qed
qed

lemma fmt_small: "FormatInt 3 = ''3''" "FormatInt 5 = ''5''"
  by (simp_all add: digits_eval)

lemma main_metric_star_batches:
  "main_metric [''top'', ''stars'', ''language:go''] star_batches start_world =
     Some (\<lparr>calls = 2,
             events = [Call ''language:go sort:stars stars:>0'' None (star_batches 0),
                       Call ''language:go sort:stars stars:<=3'' None (star_batches 1)]\<rparr>,
           [''a/x,5'' @ [CHR 0x0A], ''a/y,3'' @ [CHR 0x0A], ''a/z,3'' @ [CHR 0x0A]], None)"
  by (simp add: main_metric_def metric_loop.simps RepositorySearch_def RepositorySearch_loop.simps
      Query_def star_batches_def m_repo_def start_world_def metric_query_def field_value_def
      fmt_small)

text \<open>
  C5, as the programs have it.  The metric-windowing program has the guard: when a batch is
  not empty and its last repository has the value the batch was asked to start from, the
  loop ends with that batch.  The watermark \<^verbatim>\<open>IterSearch\<close> has none: while every page
  announces a next page and the consumer goes on, it never returns, whatever the push times
  on the pages.  (The offset \<^verbatim>\<open>Search\<close> needs none: it ends with the eleventh page.)
\<close>

theorem non_progress_guard:
  "(RepositorySearch srv (metric_query query field lastValue) w = Some (w', Inr repos)
      \<and> repos \<noteq> [] \<and> (field = ''stars'' \<or> field = ''forks'' \<or> field = ''size'')
      \<and> field_value field (last repos) 0 = lastValue \<longrightarrow>
      (\<exists>out'. metric_loop srv field query lastValue uniq out w = Some (w', out', None)))
   \<and> ((\<forall>n. \<exists>nodes. srvw n = Page nodes True) \<and> (\<forall>xs. continue xs) \<longrightarrow>
        IterSearch_loop key pushed srvw continue query since seen outw ww = None)"
proof (intro conjI impI)
  assume a: "RepositorySearch srv (metric_query query field lastValue) w = Some (w', Inr repos)
      \<and> repos \<noteq> [] \<and> (field = ''stars'' \<or> field = ''forks'' \<or> field = ''size'')
      \<and> field_value field (last repos) 0 = lastValue"
  obtain v uniq' out' where pr: "print_repos field repos 0 uniq out = (v, uniq', out')"
    by (cases "print_repos field repos 0 uniq out")
  from print_repos_value [of field repos 0 uniq out 0] a pr have "v = lastValue" by auto
  with a pr show "\<exists>out'. metric_loop srv field query lastValue uniq out w = Some (w', out', None)"
    by (subst metric_loop.simps) simp
next
  assume a: "(\<forall>n. \<exists>nodes. srvw n = Page nodes True) \<and> (\<forall>xs. continue xs)"
  show "IterSearch_loop key pushed srvw continue query since seen outw ww = None"
  proof (cases "IterSearch_loop key pushed srvw continue query since seen outw ww")
    case None
    then show ?thesis .
  next
    case (Some y)
    from IterSearch_loop_never_returns [OF this] a show ?thesis by blast
  qed
qed

theorem non_progress_guard_witness:
  "(\<exists>out'. metric_loop star_batches ''stars'' ''language:go '' 3 {''a/x'', ''a/y''} []
              \<lparr>calls = 1, events = []\<rparr>
            = Some (\<lparr>calls = 2, events = [Call ''language:go sort:stars stars:<=3'' None (star_batches 1)]\<rparr>,
                    out', None))
   \<and> IterSearch_loop DatabaseId (\<lambda>r. PushedAt r) stuck_page never_stop ''language:go '' None {} []
         start_world = None"
proof -
  have rs: "RepositorySearch star_batches (metric_query ''language:go '' ''stars'' 3)
              \<lparr>calls = 1, events = []\<rparr>
            = Some (\<lparr>calls = 2, events = [Call ''language:go sort:stars stars:<=3'' None (star_batches 1)]\<rparr>,
                    Inr [m_repo ''a/y'' 3, m_repo ''a/z'' 3])"
    by (simp add: RepositorySearch_def RepositorySearch_loop.simps Query_def star_batches_def
        metric_query_def fmt_small)
  have fv: "field_value ''stars'' (last [m_repo ''a/y'' 3, m_repo ''a/z'' 3]) 0 = 3"
    by (simp add: field_value_def m_repo_def)
  have st: "(\<forall>n. \<exists>nodes. stuck_page n = Page nodes True) \<and> (\<forall>xs :: Repository list. never_stop xs)"
    by (simp add: stuck_page_def never_stop_def)
  note t = non_progress_guard [of star_batches "''language:go ''" "''stars''" 3 "\<lparr>calls = 1, events = []\<rparr>"
      _ "[m_repo ''a/y'' 3, m_repo ''a/z'' 3]" "{''a/x'', ''a/y''}" "[]" stuck_page never_stop
      DatabaseId "\<lambda>r. PushedAt r" None "{}" "[]" start_world]
  from t [THEN conjunct1, rule_format, OF conjI [OF rs]] fv
    t [THEN conjunct2, rule_format, OF st]
  show ?thesis by simp
qed

text \<open>
  C5 as stated fails for the watermark program: the endpoint \<open>stuck_page\<close> returns the same
  page with every call, so from the second request on the watermark is the one the request
  before had, and the iteration does not end.
\<close>

theorem same_watermark_for_ever:
  "IterSearch stuck_page never_stop ''q'' start_world = None
   \<and> next_since (\<lambda>r. PushedAt r) (Some (PushedAt repo_y)) (stuck_page 1) = Some (PushedAt repo_y)"
proof -
  have "IterSearch stuck_page never_stop ''q'' start_world = None"
  proof (cases "IterSearch stuck_page never_stop ''q'' start_world")
    case None
    then show ?thesis .
  next
    case (Some y)
    from IterSearch_loop_never_returns [OF this [unfolded IterSearch_def]]
    show ?thesis by (simp add: stuck_page_def never_stop_def)
  qed
  then show ?thesis by (simp add: next_since_def stuck_page_def)
qed

section \<open>The records written\<close>

declare days_loop_daily.simps [simp del] hours_loop.simps [simp del] days_loop_hourly.simps [simp del]

lemma write_rows_appends:
  "write_rows row sink repos rows = (rows', e) \<Longrightarrow> \<exists>k. rows' = rows @ map row (take k repos)"
proof (induction repos arbitrary: rows)
  case Nil
  then show ?case by simp
next
  case (Cons repo repos)
  show ?case
  proof (cases "sink (length rows)")
    case (Some err)
    with Cons.prems have "rows' = rows" by simp
    then show ?thesis by (intro exI [of _ 0]) simp
  next
    case None
    with Cons.prems have "write_rows row sink repos (rows @ [row repo]) = (rows', e)" by simp
    from Cons.IH [OF this] obtain k where "rows' = (rows @ [row repo]) @ map row (take k repos)" ..
    then show ?thesis by (intro exI [of _ "Suc k"]) simp
  qed
qed

lemma days_loop_daily_rows:
  "days_loop_daily srv sink query day endTime rows w = Some (w', rows', err)
     \<Longrightarrow> \<exists>repos. rows' = rows @ map csv_row repos"
proof (induction srv sink query day endTime rows w rule: days_loop_daily.induct)
  case (1 srv sink query day endTime rows w)
  show ?case
  proof (cases "After day endTime")
    case True
    with "1.prems" have "rows' = rows" by (subst (asm) days_loop_daily.simps) simp
    then show ?thesis by (intro exI [of _ "[]"]) simp
  next
    case False
    show ?thesis
    proof (cases "Search_daily srv (day_query query day) w")
      case None
      with False "1.prems" show ?thesis by (subst (asm) days_loop_daily.simps) simp
    next
      case (Some x)
      obtain w1 res where x: "x = (w1, res)" by (cases x)
      show ?thesis
      proof (cases res)
        case (Inl e)
        with Some x False "1.prems" have "rows' = rows"
          by (subst (asm) days_loop_daily.simps) simp
        then show ?thesis by (intro exI [of _ "[]"]) simp
      next
        case (Inr repos)
        obtain rows1 e where wr: "write_rows csv_row sink repos rows = (rows1, e)"
          by (cases "write_rows csv_row sink repos rows")
        from write_rows_appends [OF wr] obtain k where k: "rows1 = rows @ map csv_row (take k repos)" ..
        show ?thesis
        proof (cases e)
          case (Some err')
          with Inr \<open>Search_daily srv (day_query query day) w = Some x\<close> x False wr "1.prems"
          have "rows' = rows1" by (subst (asm) days_loop_daily.simps) simp
          with k show ?thesis by blast
        next
          case None
          with Inr \<open>Search_daily srv (day_query query day) w = Some x\<close> x False wr "1.prems"
          have "days_loop_daily srv sink query (AddDate_day day) endTime rows1 w1 = Some (w', rows', err)"
            by (subst (asm) days_loop_daily.simps) simp
          from "1.IH" [OF False \<open>Search_daily srv (day_query query day) w = Some x\<close> x [symmetric] Inr
              wr [symmetric] None this]
          obtain more where "rows' = rows1 @ map csv_row more" ..
          with k have "rows' = rows @ map csv_row (take k repos @ more)" by simp
          then show ?thesis by blast
        qed
      qed
    qed
  qed
qed


lemma hours_loop_rows:
  "hours_loop srv sink query day hour rows w = Some (w', rows', err)
     \<Longrightarrow> \<exists>repos. rows' = rows @ map csv_row repos"
proof (induction srv sink query day hour rows w rule: hours_loop.induct)
  case (1 srv sink query day hour rows w)
  show ?case
  proof (cases "hour < 24")
    case False
    with "1.prems" have "rows' = rows" by (subst (asm) hours_loop.simps) simp
    then show ?thesis by (intro exI [of _ "[]"]) simp
  next
    case True
    then have h: "\<not> \<not> hour < 24" by simp
    show ?thesis
    proof (cases "Search_hourly srv (hour_query query day hour) w")
      case None
      with True "1.prems" show ?thesis by (subst (asm) hours_loop.simps) simp
    next
      case (Some x)
      obtain w1 res where x: "x = (w1, res)" by (cases x)
      show ?thesis
      proof (cases res)
        case (Inl e)
        with Some x True "1.prems" have "rows' = rows"
          by (subst (asm) hours_loop.simps) simp
        then show ?thesis by (intro exI [of _ "[]"]) simp
      next
        case (Inr repos)
        obtain rows1 e where wr: "write_rows csv_row sink repos rows = (rows1, e)"
          by (cases "write_rows csv_row sink repos rows")
        from write_rows_appends [OF wr] obtain k where k: "rows1 = rows @ map csv_row (take k repos)" ..
        show ?thesis
        proof (cases e)
          case (Some err')
          with Inr \<open>Search_hourly srv (hour_query query day hour) w = Some x\<close> x True wr "1.prems"
          have "rows' = rows1" by (subst (asm) hours_loop.simps) simp
          with k show ?thesis by blast
        next
          case None
          with Inr \<open>Search_hourly srv (hour_query query day hour) w = Some x\<close> x True wr "1.prems"
          have "hours_loop srv sink query day (hour + 1) rows1 w1 = Some (w', rows', err)"
            by (subst (asm) hours_loop.simps) simp
          from "1.IH" [OF h \<open>Search_hourly srv (hour_query query day hour) w = Some x\<close> x [symmetric] Inr
              wr [symmetric] None this]
          obtain more where "rows' = rows1 @ map csv_row more" ..
          with k have "rows' = rows @ map csv_row (take k repos @ more)" by simp
          then show ?thesis by blast
        qed
      qed
    qed
  qed
qed

lemma days_loop_hourly_rows:
  "days_loop_hourly srv sink query day endTime rows w = Some (w', rows', err)
     \<Longrightarrow> \<exists>repos. rows' = rows @ map csv_row repos"
proof (induction srv sink query day endTime rows w rule: days_loop_hourly.induct)
  case (1 srv sink query day endTime rows w)
  show ?case
  proof (cases "After day endTime")
    case True
    with "1.prems" have "rows' = rows" by (subst (asm) days_loop_hourly.simps) simp
    then show ?thesis by (intro exI [of _ "[]"]) simp
  next
    case False
    show ?thesis
    proof (cases "hours_loop srv sink query day 0 rows w")
      case None
      with False "1.prems" show ?thesis by (subst (asm) days_loop_hourly.simps) simp
    next
      case (Some x)
      obtain w1 rows1 e where x: "x = (w1, rows1, e)" by (cases x)
      from hours_loop_rows [OF Some [unfolded x]]
      obtain first where k: "rows1 = rows @ map csv_row first" ..
      show ?thesis
      proof (cases e)
        case (Some err')
        with \<open>hours_loop srv sink query day 0 rows w = Some x\<close> x False "1.prems"
        have "rows' = rows1" by (subst (asm) days_loop_hourly.simps) simp
        with k show ?thesis by blast
      next
        case None
        with \<open>hours_loop srv sink query day 0 rows w = Some x\<close> x False "1.prems"
        have "days_loop_hourly srv sink query (AddDate_day day) endTime rows1 w1 = Some (w', rows', err)"
          by (subst (asm) days_loop_hourly.simps) simp
        from "1.IH" [OF False \<open>hours_loop srv sink query day 0 rows w = Some x\<close> x [symmetric] _ None this]
        obtain more where "rows' = rows1 @ map csv_row more" by blast
        with k have "rows' = rows @ map csv_row (first @ more)" by simp
        then show ?thesis by blast
      qed
    qed
  qed
qed


lemma csv_row_samples:
  "csv_row repo_x = [''a'', ''x'', ''1'', ''5'', ''2'', ''10'', ''2022-09-28T22:13:20Z'',
                     ''2024-03-02T18:13:20Z'', ''2024-03-02T18:13:20Z'', []]"
  "csv_row_w (w_repo ''a/x'' 0) = [''a/x'', ''5'', ''2022-09-28T22:13:20Z'', ''0001-01-01T00:00:00Z'']"
  "csvDateTime (at_second 63845000000) = ''2024-03-02T18:13:20Z''"
  by (simp_all add: csv_row_def csv_row_w_def csvDateTime_def IsZero_def Cut_slash_def sample_defs
        w_repo_def format_eval)
     (simp_all add: digits_eval)

lemma main_watermark_two_pages:
  "main_watermark two_pages sink_ok ''q'' start_world =
     Some (\<lparr>calls = 2,
             events = [Call (watermark_query ''q'' None) None (two_pages 0),
                       Call (watermark_query ''q'' (Some (PushedAt repo_y))) None (two_pages 1)]\<rparr>,
           [csv_row repo_x, csv_row repo_y, csv_row repo_z], None)"
  by (simp add: main_watermark_def IterSearch_def IterSearch_loop.simps Search_page_def Query_def
      written_def sink_ok_def sample_defs)

lemma main_by_name_never_pushed:
  "main_by_name never_pushed sink_ok ''q'' start_world =
     Some (\<lparr>calls = 1, events = [Call (watermark_query ''q'' None) None (never_pushed 0)]\<rparr>,
           [csv_row_w (w_repo ''a/x'' 0)], None)"
  by (simp add: main_by_name_def IterSearch_by_name_def IterSearch_loop.simps Search_page_def
      Query_def written_def sink_ok_def never_pushed_def start_world_def)

lemma main_daily_two_pages:
  "main_daily two_pages sink_ok ''q'' (at_second 63845020800) (at_second 63845020800) start_world =
     Some (\<lparr>calls = 2,
             events = [Call (day_query ''q'' (at_second 63845020800)) None (two_pages 0),
                       Call (day_query ''q'' (at_second 63845020800)) (Some ''Y3Vyc29yOjkx'') (two_pages 1)]\<rparr>,
           [csv_row repo_x, csv_row repo_y, csv_row repo_z], None)"
  apply (simp add: main_daily_def After_def at_second_def)
  apply (subst days_loop_daily.simps)
  apply (simp add: After_def Search_daily_two_pages sink_ok_def)
  apply (subst days_loop_daily.simps)
  apply (simp add: After_def AddDate_day_def)
  done

lemma main_hourly_bad_credentials:
  "main_hourly bad_credentials sink_ok ''q'' (at_second 63845020800) (at_second 63845020800) start_world =
     Some (\<lparr>calls = 1,
             events = [Take, Call (hour_query ''q'' (at_second 63845020800) 0) None (bad_credentials 0)]\<rparr>,
           [], Some (Search_failed ''401 Unauthorized: Bad credentials''))"
  apply (simp add: main_hourly_def After_def at_second_def)
  apply (subst days_loop_hourly.simps)
  apply (simp add: After_def)
  apply (subst hours_loop.simps)
  apply (simp add: Search_hourly_def Search_loop.simps Query_def rl_Take_def cursor_0
      bad_credentials_def msg_credentials start_world_def)
  done

text \<open>
  C9, as the programs have it.  The three later programs write for a repository the ten
  fields owner, name, identifier, stars, forks, size and the creation, update, push and
  archival times, in this order; a time is written in RFC 3339 when it is not the zero time
  and as the empty text when it is.  Every record of a run of theirs is such a record.
  The earlier watermark program writes four fields: display path, stars, creation time and
  push time, both times in RFC 3339.
\<close>

theorem record_layout:
  "csv_row repo =
     [fst (Cut_slash (NameWithOwner repo)), snd (Cut_slash (NameWithOwner repo)),
      FormatInt (sint (DatabaseId repo)), FormatInt (sint (StargazerCount repo)),
      FormatInt (sint (ForkCount repo)), FormatInt (sint (DiskUsage repo)),
      csvDateTime (CreatedAt repo), csvDateTime (UpdatedAt repo),
      csvDateTime (PushedAt repo), csvDateTime (ArchivedAt repo)]
   \<and> (IsZero t \<longrightarrow> csvDateTime t = [])
   \<and> (\<not> IsZero t \<longrightarrow> csvDateTime t = Format_RFC3339 t)
   \<and> (main_daily srv sink query startTime endTime w = Some (w', rows, err) \<longrightarrow>
        (\<exists>repos. rows = map csv_row repos))
   \<and> (main_hourly srv sink query startTime endTime w = Some (w', rows, err) \<longrightarrow>
        (\<exists>repos. rows = map csv_row repos))
   \<and> (main_watermark srv sink query w = Some (w', rows, err) \<longrightarrow>
        (\<exists>repos. rows = map csv_row repos))
   \<and> csv_row_w repow =
        [W_NameWithOwner repow, FormatInt (sint (W_StargazerCount repow)),
         Format_RFC3339 (W_CreatedAt repow), Format_RFC3339 (W_PushedAt repow)]
   \<and> (main_by_name srvw sink query ww = Some (ww', rows, err) \<longrightarrow>
        (\<exists>repos. rows = map csv_row_w repos))"
proof (intro conjI impI)
  show "csv_row repo =
     [fst (Cut_slash (NameWithOwner repo)), snd (Cut_slash (NameWithOwner repo)),
      FormatInt (sint (DatabaseId repo)), FormatInt (sint (StargazerCount repo)),
      FormatInt (sint (ForkCount repo)), FormatInt (sint (DiskUsage repo)),
      csvDateTime (CreatedAt repo), csvDateTime (UpdatedAt repo),
      csvDateTime (PushedAt repo), csvDateTime (ArchivedAt repo)]"
    by (simp add: csv_row_def split: prod.splits)
next
  assume "main_daily srv sink query startTime endTime w = Some (w', rows, err)"
  then show "\<exists>repos. rows = map csv_row repos"
    using days_loop_daily_rows [of srv sink query startTime endTime "[]" w w' rows err]
    by (auto simp: main_daily_def split: if_splits)
next
  assume "main_hourly srv sink query startTime endTime w = Some (w', rows, err)"
  then show "\<exists>repos. rows = map csv_row repos"
    using days_loop_hourly_rows [of srv sink query startTime endTime "[]" w w' rows err]
    by (auto simp: main_hourly_def split: if_splits)
next
  assume a: "main_watermark srv sink query w = Some (w', rows, err)"
  then obtain out e where wr: "write_rows csv_row sink out [] = (rows, e)"
    by (auto simp: main_watermark_def split: option.splits prod.splits)
  from write_rows_appends [OF wr] show "\<exists>repos. rows = map csv_row repos"
    by auto
next
  assume a: "main_by_name srvw sink query ww = Some (ww', rows, err)"
  then obtain out e where wr: "write_rows csv_row_w sink out [] = (rows, e)"
    by (auto simp: main_by_name_def split: option.splits prod.splits)
  from write_rows_appends [OF wr] show "\<exists>repos. rows = map csv_row_w repos"
    by auto
qed (simp_all add: csvDateTime_def csv_row_w_def)

theorem record_layout_witness:
  "IsZero (at_second 0) \<and> csvDateTime (at_second 0) = []
   \<and> \<not> IsZero (at_second 63845000000) \<and> csvDateTime (at_second 63845000000) = ''2024-03-02T18:13:20Z''
   \<and> csv_row repo_x = [''a'', ''x'', ''1'', ''5'', ''2'', ''10'', ''2022-09-28T22:13:20Z'',
                        ''2024-03-02T18:13:20Z'', ''2024-03-02T18:13:20Z'', []]
   \<and> (\<exists>repos. [csv_row repo_x, csv_row repo_y, csv_row repo_z] = map csv_row repos)
   \<and> (\<exists>repos. [csv_row_w (w_repo ''a/x'' 0)] = map csv_row_w repos)
   \<and> (\<exists>repos. [] = map csv_row repos)"
proof -
  have z: "IsZero (at_second 0)" and nz: "\<not> IsZero (at_second 63845000000)"
    by (simp_all add: IsZero_def at_second_def)
  note t = record_layout [of repo_x]
  note a = t [of "at_second 0", THEN conjunct2, THEN conjunct1, rule_format, OF z]
  note b = t [of "at_second 63845000000", THEN conjunct2, THEN conjunct2, THEN conjunct1,
      rule_format, OF nz]
  note rest = t [THEN conjunct2, THEN conjunct2, THEN conjunct2]
  note c = rest [THEN conjunct1, rule_format, OF main_daily_two_pages]
  note d = rest [THEN conjunct2, THEN conjunct1, rule_format, OF main_hourly_bad_credentials]
  note e = rest [THEN conjunct2, THEN conjunct2, THEN conjunct1, rule_format, OF main_watermark_two_pages]
  note f = rest [THEN conjunct2, THEN conjunct2, THEN conjunct2, THEN conjunct2, rule_format,
      OF main_by_name_never_pushed]
  from z nz a b c d e f show ?thesis by (simp add: csv_row_samples)
qed

text \<open>
  C9 as stated fails for the earlier watermark program: for a repository that was never
  pushed to it writes a record of four fields, with the display path in one field and the
  zero push time as a date of the year 1.
\<close>

theorem four_column_record:
  "main_by_name never_pushed sink_ok ''q'' start_world =
     Some (\<lparr>calls = 1, events = [Call ''q sort:updated-asc'' None (never_pushed 0)]\<rparr>,
           [[''a/x'', ''5'', ''2022-09-28T22:13:20Z'', ''0001-01-01T00:00:00Z'']], None)
   \<and> IsZero (W_PushedAt (w_repo ''a/x'' 0))"
  by (simp add: main_by_name_never_pushed csv_row_samples watermark_query_def)
     (simp add: IsZero_def w_repo_def at_second_def)

end
